theory Spec2Isabelle
  imports Main
begin

section \<open>Data model\<close>

text \<open>
  The builder of \<^verbatim>\<open>juce_ComponentBuilder.cpp\<close> keeps a tree of components in step with a
  \<^verbatim>\<open>ValueTree\<close>. A state node has a type, properties and an ordered list of children.
  Property values are kept as the strings that \<^verbatim>\<open>var::toString()\<close> yields.
\<close>

type_synonym Identifier = string

datatype ValueTree =
  ValueTree (getType: Identifier) (properties: "(Identifier \<times> string) list")
            (getChildren: "ValueTree list")

text \<open>
  A component is an object: \<open>ref\<close> is its address (a \<^verbatim>\<open>Component*\<close> is compared by it),
  \<open>parentComponent\<close> the address of its parent, \<open>componentID\<close> its ID string, \<open>content\<close>
  whatever the concrete component class holds, and \<open>childComponentList\<close> the children it
  owns, index 0 first (the last child is the topmost one). Ownership is tree shaped, so a
  parent holds its children by value and a write through a child pointer is a write into
  the owning list.
\<close>

datatype 'p Component =
  Component (ref: nat) (parentComponent: "nat option") (componentID: string)
            (content: 'p) (childComponentList: "'p Component list")

text \<open>
  \<^verbatim>\<open>ComponentBuilder::TypeHandler\<close> is an abstract class whose subclasses live outside this
  file. A handler is given by the type it claims, by the object its
  \<^verbatim>\<open>addNewComponentFromState\<close> constructs (an initial ID and a content), and by its
  \<^verbatim>\<open>updateComponentFromState\<close>.
\<close>

record 'p TypeHandler =
  valueTreeType :: Identifier
  construct :: "ValueTree \<Rightarrow> string \<times> 'p"
  updateComponentFromState :: "'p Component \<Rightarrow> ValueTree \<Rightarrow> 'p Component"

text \<open>
  The builder: the observed state, the registered handlers, the managed root component
  (\<open>None\<close> until it is first asked for). Two fields belong to the model of the runtime:
  \<open>nextRef\<close> is the next address that \<^verbatim>\<open>new\<close> hands out, and \<open>assertionFailed\<close> records
  that some \<^verbatim>\<open>jassert\<close> did not hold (a \<^verbatim>\<open>jassert\<close> reports and execution goes on; in a
  release build it is compiled out, and the flag is then the only trace of it).
\<close>

record 'p ComponentBuilder =
  state :: ValueTree
  types :: "'p TypeHandler list"
  component :: "'p Component option"
  nextRef :: nat
  assertionFailed :: bool

definition jassert :: "bool \<Rightarrow> 'p ComponentBuilder \<Rightarrow> 'p ComponentBuilder" where
  "jassert cond b = (if cond then b else b\<lparr>assertionFailed := True\<rparr>)"

section \<open>Helpers of the component class\<close>

definition setChildren :: "'p Component list \<Rightarrow> 'p Component \<Rightarrow> 'p Component" where
  "setChildren kids c =
     Component (ref c) (parentComponent c) (componentID c) (content c) kids"

definition setComponentID :: "string \<Rightarrow> 'p Component \<Rightarrow> 'p Component" where
  "setComponentID newID c =
     Component (ref c) (parentComponent c) newID (content c) (childComponentList c)"

text \<open>A write through the pointer \<open>ref c\<close> seen from the parent that owns the object.\<close>

definition storeChild :: "'p Component \<Rightarrow> 'p Component \<Rightarrow> 'p Component" where
  "storeChild c p =
     setChildren (map (\<lambda>k. if ref k = ref c then c else k) (childComponentList p)) p"

text \<open>
  Modelled from the spec: \<^verbatim>\<open>Component::toFront\<close>, \<^verbatim>\<open>Component::toBehind\<close> and the
  destructor of a component are not in this file. The spec has the last instance
  "promoted to the topmost position" and each preceding one "placed immediately behind
  its successor", and a disposed instance released by its parent. On the child list of
  the parent: \<open>toFront\<close> moves the child to the end of the list, \<open>toBehind\<close> moves it to
  the place just before the other child, and deleting a child takes it out of the list.
\<close>

definition toFront :: "nat \<Rightarrow> 'p Component list \<Rightarrow> 'p Component list" where
  "toFront r kids =
     (case find (\<lambda>k. ref k = r) kids of
        None \<Rightarrow> kids
      | Some c \<Rightarrow> filter (\<lambda>k. ref k \<noteq> r) kids @ [c])"

definition toBehind :: "nat \<Rightarrow> nat \<Rightarrow> 'p Component list \<Rightarrow> 'p Component list" where
  "toBehind r other kids =
     (if r = other then kids
      else case (find (\<lambda>k. ref k = r) kids, find (\<lambda>k. ref k = other) kids) of
          (Some c, Some _) \<Rightarrow>
             (let others = filter (\<lambda>k. ref k \<noteq> r) kids
              in takeWhile (\<lambda>k. ref k \<noteq> other) others @ c # dropWhile (\<lambda>k. ref k \<noteq> other) others)
        | _ \<Rightarrow> kids)"

definition deleteChild :: "'p Component \<Rightarrow> 'p Component list \<Rightarrow> 'p Component list" where
  "deleteChild c kids = filter (\<lambda>k. ref k \<noteq> ref c) kids"

section \<open>ComponentBuilderHelpers\<close>

definition idProperty :: Identifier where
  "idProperty = ''id''"

definition getStateId :: "ValueTree \<Rightarrow> string" where
  "getStateId s = (case map_of (properties s) idProperty of None \<Rightarrow> [] | Some v \<Rightarrow> v)"

text \<open>
  \<^verbatim>\<open>findComponentWithID (OwnedArray<Component>&, const String&)\<close>: the loop
  \<^verbatim>\<open>for (int i = components.size(); --i >= 0;)\<close> runs from the last index down to 0, and
  \<^verbatim>\<open>removeAndReturn (i)\<close> takes the match out of the array. The result is the match with
  the array that is left. Its \<^verbatim>\<open>jassert (compId.isNotEmpty())\<close> is recorded by the caller,
  which holds the builder.
\<close>

fun findInArray ::
  "nat \<Rightarrow> 'p Component list \<Rightarrow> string \<Rightarrow> ('p Component \<times> 'p Component list) option" where
  "findInArray 0 components compId = None"
| "findInArray (Suc i) components compId =
     (let c = components ! i
      in if componentID c = compId
         then Some (c, take i components @ drop (Suc i) components)
         else findInArray i components compId)"

definition findComponentWithID_array ::
  "'p Component list \<Rightarrow> string \<Rightarrow> ('p Component \<times> 'p Component list) option" where
  "findComponentWithID_array components compId =
     findInArray (length components) components compId"

text \<open>
  \<^verbatim>\<open>findComponentWithID (Component* const, const String&)\<close>: the component itself first,
  then \<^verbatim>\<open>for (int i = c->getNumChildComponents(); --i >= 0;)\<close>, the children from the last
  index down to 0, each searched recursively; \<open>findInChildren\<close> is that loop over the
  children still to visit. Its \<^verbatim>\<open>jassert (compId.isNotEmpty())\<close> cannot fail: the one
  caller, \<open>updateComponent\<close>, searches only for a non-empty ID.
\<close>

lemma size_list_rev: "size_list f (rev xs) = size_list f xs"
  by (induction xs) simp_all

lemma size_childComponentList: "size_list size (childComponentList c) < size c"
  by (cases c) simp

function findComponentWithID :: "'p Component \<Rightarrow> string \<Rightarrow> 'p Component option"
  and findInChildren :: "'p Component list \<Rightarrow> string \<Rightarrow> 'p Component option" where
  "findComponentWithID c compId =
     (if componentID c = compId then Some c
      else findInChildren (rev (childComponentList c)) compId)"
| "findInChildren [] compId = None"
| "findInChildren (k # ks) compId =
     (case findComponentWithID k compId of
        Some child \<Rightarrow> Some child
      | None \<Rightarrow> findInChildren ks compId)"
  by pat_completeness auto

termination
proof (relation "measure (\<lambda>x. case x of
          Inl (c, _) \<Rightarrow> 2 * size c
        | Inr (ks, _) \<Rightarrow> 2 * size_list size ks + 1)")
  show "wf (measure (\<lambda>x. case x of
          Inl (c :: 'p Component, _ :: string) \<Rightarrow> 2 * size c
        | Inr (ks, _ :: string) \<Rightarrow> 2 * size_list size ks + 1))"
    by simp
next
  fix c :: "'p Component" and compId :: string
  assume "componentID c \<noteq> compId"
  have "size_list size (rev (childComponentList c)) < size c"
    by (simp add: size_list_rev size_childComponentList)
  then show "(Inr (rev (childComponentList c), compId), Inl (c, compId))
      \<in> measure (\<lambda>x. case x of
          Inl (c, _) \<Rightarrow> 2 * size c
        | Inr (ks, _) \<Rightarrow> 2 * size_list size ks + 1)"
    by simp
qed simp_all

text \<open>
  Modelled from the spec: \<^verbatim>\<open>TypeHandler::addNewComponentFromState\<close> is pure virtual and
  its overrides are not in this file. The spec requires it to "return a non-null, fully
  constructed Instance whose parent pointer equals the supplied parent": the handler
  allocates the object it constructs (address \<open>n\<close>, no children yet), the parent pointer
  is the supplied parent, and a supplied parent gets the object as its new last child.
  The result is the new object, the parent after the call and the next free address.
\<close>

definition addNewComponentFromState ::
  "'p TypeHandler \<Rightarrow> ValueTree \<Rightarrow> 'p Component option \<Rightarrow> nat
     \<Rightarrow> 'p Component \<times> 'p Component option \<times> nat" where
  "addNewComponentFromState type s parent n =
     (let c = Component n (map_option ref parent) (fst (construct type s))
                (snd (construct type s)) []
      in (c, map_option (\<lambda>p. setChildren (childComponentList p @ [c]) p) parent, Suc n))"

text \<open>
  \<^verbatim>\<open>createNewComponent\<close>: its \<^verbatim>\<open>jassert (c != nullptr && c->getParentComponent() == parent)\<close>
  holds of every object \<open>addNewComponentFromState\<close> returns; \<^verbatim>\<open>setComponentID\<close> writes
  through the pointer, so the parent's list sees the new ID as well.
\<close>

definition createNewComponent ::
  "'p TypeHandler \<Rightarrow> ValueTree \<Rightarrow> 'p Component option \<Rightarrow> nat
     \<Rightarrow> 'p Component \<times> 'p Component option \<times> nat" where
  "createNewComponent type s parent n =
     (case addNewComponentFromState type s parent n of
        (c, parent', n') \<Rightarrow>
          (let c' = setComponentID (getStateId s) c
           in (c', map_option (storeChild c') parent', n')))"

section \<open>ComponentBuilder\<close>

text \<open>\<^verbatim>\<open>getHandlerForState\<close>: the first registered handler whose type is the node's.\<close>

definition getHandlerForState ::
  "'p ComponentBuilder \<Rightarrow> ValueTree \<Rightarrow> 'p TypeHandler option" where
  "getHandlerForState b s = find (\<lambda>t. valueTreeType t = getType s) (types b)"

definition createComponent ::
  "'p ComponentBuilder \<Rightarrow> 'p Component option \<times> 'p ComponentBuilder" where
  "createComponent b =
     (let b1 = jassert (types b \<noteq> []) b;
          type = getHandlerForState b1 (state b1);
          b2 = jassert (type \<noteq> None) b1
      in case type of
           None \<Rightarrow> (None, b2)
         | Some t \<Rightarrow>
             (case createNewComponent t (state b2) None (nextRef b2) of
                (c, _, n) \<Rightarrow> (Some c, b2\<lparr>nextRef := n\<rparr>)))"

definition getManagedComponent ::
  "'p ComponentBuilder \<Rightarrow> 'p Component option \<times> 'p ComponentBuilder" where
  "getManagedComponent b =
     (if component b = None
      then (case createComponent b of (c, b') \<Rightarrow> (c, b'\<lparr>component := c\<rparr>))
      else (component b, b))"

text \<open>
  \<^verbatim>\<open>type->updateComponentFromState (changedComp, state)\<close> writes through a pointer into
  the managed tree: \<open>replaceComponent r new\<close> puts the updated object where the object
  with address \<open>r\<close> was (addresses are unique in a tree of live objects).
\<close>

fun replaceComponent :: "nat \<Rightarrow> 'p Component \<Rightarrow> 'p Component \<Rightarrow> 'p Component" where
  "replaceComponent r new (Component r' par cid p kids) =
     (if r' = r then new
      else Component r' par cid p (map (replaceComponent r new) kids))"

text \<open>
  \<^verbatim>\<open>updateComponent (builder, state)\<close>. A \<^verbatim>\<open>ValueTree\<close> handle knows its parent; the
  model passes the node \<open>s\<close> with the chain \<open>parents\<close> of its ancestors, nearest first:
  \<^verbatim>\<open>state.getParent().isValid()\<close> is \<open>parents \<noteq> []\<close>, and \<^verbatim>\<open>state.getParent()\<close> is the
  head of the chain with the rest as its own ancestors.
\<close>

fun updateComponent ::
  "'p ComponentBuilder \<Rightarrow> ValueTree \<Rightarrow> ValueTree list \<Rightarrow> 'p ComponentBuilder" where
  "updateComponent builder s parents =
     (case getManagedComponent builder of
        (None, b) \<Rightarrow> b
      | (Some topLevelComp, b) \<Rightarrow>
          (let type = getHandlerForState b s;
               uid = getStateId s
           in if type = None \<or> uid = []
              then (case parents of
                      [] \<Rightarrow> b
                    | p # ps \<Rightarrow> updateComponent b p ps)
              else (case findComponentWithID topLevelComp uid of
                      None \<Rightarrow> b
                    | Some changedComp \<Rightarrow>
                        b\<lparr>component := Some (replaceComponent (ref changedComp)
                            (updateComponentFromState (the type) changedComp s)
                            topLevelComp)\<rparr>)))"

text \<open>The five listener callbacks; the second argument of the source is not used.\<close>

definition valueTreePropertyChanged ::
  "'p ComponentBuilder \<Rightarrow> ValueTree \<Rightarrow> ValueTree list \<Rightarrow> Identifier \<Rightarrow> 'p ComponentBuilder" where
  "valueTreePropertyChanged b tree parents property = updateComponent b tree parents"

definition valueTreeChildAdded ::
  "'p ComponentBuilder \<Rightarrow> ValueTree \<Rightarrow> ValueTree list \<Rightarrow> ValueTree \<Rightarrow> 'p ComponentBuilder" where
  "valueTreeChildAdded b tree parents child = updateComponent b tree parents"

definition valueTreeChildRemoved ::
  "'p ComponentBuilder \<Rightarrow> ValueTree \<Rightarrow> ValueTree list \<Rightarrow> ValueTree \<Rightarrow> 'p ComponentBuilder" where
  "valueTreeChildRemoved b tree parents child = updateComponent b tree parents"

definition valueTreeChildOrderChanged ::
  "'p ComponentBuilder \<Rightarrow> ValueTree \<Rightarrow> ValueTree list \<Rightarrow> 'p ComponentBuilder" where
  "valueTreeChildOrderChanged b tree parents = updateComponent b tree parents"

definition valueTreeParentChanged ::
  "'p ComponentBuilder \<Rightarrow> ValueTree \<Rightarrow> ValueTree list \<Rightarrow> 'p ComponentBuilder" where
  "valueTreeParentChanged b tree parents = updateComponent b tree parents"

text \<open>
  \<^verbatim>\<open>updateChildComponents (parent, children)\<close>. The state of its first block:
  the pool \<open>existingComponents\<close>, the list \<open>componentsInOrder\<close>, the parent and the
  builder as they stand. \<open>childStep\<close> is the body of the loop over the child states,
  \<open>childLoop\<close> the loop.
\<close>

record 'p pass =
  existingComponents :: "'p Component list"
  componentsInOrder :: "'p Component list"
  parentNow :: "'p Component"
  builderNow :: "'p ComponentBuilder"

definition childStep :: "ValueTree \<Rightarrow> 'p pass \<Rightarrow> 'p pass" where
  "childStep childState st =
     (let type = getHandlerForState (builderNow st) childState;
          st1 = st\<lparr>builderNow := jassert (type \<noteq> None) (builderNow st)\<rparr>
      in case type of
           None \<Rightarrow> st1
         | Some t \<Rightarrow>
             (let compId = getStateId childState;
                  st2 = st1\<lparr>builderNow := jassert (compId \<noteq> []) (builderNow st1)\<rparr>
              in case findComponentWithID_array (existingComponents st2) compId of
                   Some (c, remaining) \<Rightarrow>
                     st2\<lparr>existingComponents := remaining,
                         componentsInOrder := componentsInOrder st2 @ [c]\<rparr>
                 | None \<Rightarrow>
                     (case createNewComponent t childState (Some (parentNow st2))
                             (nextRef (builderNow st2)) of
                        (c, parent', n) \<Rightarrow>
                          st2\<lparr>componentsInOrder := componentsInOrder st2 @ [c],
                              parentNow := (case parent' of Some p \<Rightarrow> p | None \<Rightarrow> parentNow st2),
                              builderNow := (builderNow st2)\<lparr>nextRef := n\<rparr>\<rparr>)))"

fun childLoop :: "ValueTree list \<Rightarrow> 'p pass \<Rightarrow> 'p pass" where
  "childLoop [] st = st"
| "childLoop (childState # rest) st = childLoop rest (childStep childState st)"

text \<open>
  \<^verbatim>\<open>for (int i = componentsInOrder.size() - 1; --i >= 0;)\<close>: \<open>zOrderLoop k\<close> runs the body
  for \<open>i = k - 1\<close> down to \<open>0\<close>.
\<close>

fun zOrderLoop :: "nat \<Rightarrow> 'p Component list \<Rightarrow> 'p Component list \<Rightarrow> 'p Component list" where
  "zOrderLoop 0 comps kids = kids"
| "zOrderLoop (Suc i) comps kids =
     zOrderLoop i comps (toBehind (ref (comps ! i)) (ref (comps ! Suc i)) kids)"

text \<open>
  The pool goes out of scope at the end of the first block and the components left in
  it are deleted; then the z-order is set. The result is the parent after the call and
  the builder.
\<close>

definition updateChildComponents ::
  "'p ComponentBuilder \<Rightarrow> 'p Component \<Rightarrow> ValueTree
     \<Rightarrow> 'p Component \<times> 'p ComponentBuilder" where
  "updateChildComponents b parent children =
     (let st = childLoop (getChildren children)
                 \<lparr>existingComponents = childComponentList parent, componentsInOrder = [],
                  parentNow = parent, builderNow = b\<rparr>;
          kids1 = fold deleteChild (existingComponents st) (childComponentList (parentNow st));
          comps = componentsInOrder st;
          kids2 = (if comps \<noteq> []
                   then zOrderLoop (length comps - 1) comps (toFront (ref (last comps)) kids1)
                   else kids1)
      in (setChildren kids2 (parentNow st), builderNow st))"

text \<open>
  Addresses are unique and \<^verbatim>\<open>new\<close> returns an unused one: the children of a parent have
  distinct addresses, all below the next free address.
\<close>

definition heapOK :: "'p ComponentBuilder \<Rightarrow> 'p Component \<Rightarrow> bool" where
  "heapOK b parent =
     (distinct (map ref (childComponentList parent))
      \<and> list_all (\<lambda>k. ref k < nextRef b) (childComponentList parent))"

text \<open>
  The invariant of the loop over the child states, for a pass that started with the
  children \<open>kids0\<close> and the next free address \<open>n0\<close>: the pool and the ordered list
  together are the parent's children, no address occurs twice, the pool holds only
  children the pass started with, and every component of the ordered list is one of
  those or was allocated during the pass.
\<close>

definition passInv :: "'p Component list \<Rightarrow> nat \<Rightarrow> 'p pass \<Rightarrow> bool" where
  "passInv kids0 n0 st =
     (distinct (map ref (childComponentList (parentNow st)))
      \<and> (\<forall>k \<in> set (childComponentList (parentNow st)). ref k < nextRef (builderNow st))
      \<and> set (existingComponents st) \<union> set (componentsInOrder st)
          = set (childComponentList (parentNow st))
      \<and> distinct (map ref (existingComponents st @ componentsInOrder st))
      \<and> set (existingComponents st) \<subseteq> set kids0
      \<and> (\<forall>k \<in> set (componentsInOrder st). k \<in> set kids0 \<or> n0 \<le> ref k)
      \<and> n0 \<le> nextRef (builderNow st))"

section \<open>Reference descriptions\<close>

text \<open>
  The order in which \<open>findComponentWithID\<close> visits a tree, written out as a list: the
  component, then the subtrees of its children from the last child to the first.
\<close>

fun searchOrder :: "'p Component \<Rightarrow> 'p Component list" where
  "searchOrder (Component r par cid p kids) =
     Component r par cid p kids # concat (map searchOrder (rev kids))"

text \<open>
  The order the specification describes for the same search: "root, then children in
  current order, recursively", the children from index 0 upwards.
\<close>

fun depthFirstInIndexOrder :: "'p Component \<Rightarrow> 'p Component list" where
  "depthFirstInIndexOrder (Component r par cid p kids) =
     Component r par cid p kids # concat (map depthFirstInIndexOrder kids)"

text \<open>
  Step 1 of the specification's procedure: "the nearest ancestor-or-self of N (starting
  at N) that has both a matching handler and a non-empty identifier".
\<close>

definition resolveNode :: "'p ComponentBuilder \<Rightarrow> ValueTree \<Rightarrow> ValueTree list \<Rightarrow> ValueTree option" where
  "resolveNode b N ancestors =
     find (\<lambda>s. getHandlerForState b s \<noteq> None \<and> getStateId s \<noteq> []) (N # ancestors)"

section \<open>The scenario of the specification\<close>

text \<open>
  A root of kind panel with the ID root and two children of kind button with the IDs a
  and b; handlers for both kinds. A created component shows the kind of its state node,
  an updated one shows the word updated. \<open>twinA\<close> is a second component with the ID
  a, \<open>nodeX\<close> a state node of a kind without a handler, \<open>leafNode\<close> one without a
  handler and without an identifier, \<open>passStart\<close> the state in which the loop of
  \<open>updateChildComponents\<close> starts, \<open>nodeC\<close> a third button state, and \<open>noHandlers\<close> a
  builder on which no handler has been registered yet.
\<close>

definition exampleHandler :: "Identifier \<Rightarrow> string TypeHandler" where
  "exampleHandler ty =
     \<lparr>valueTreeType = ty,
      construct = (\<lambda>s. ([], getType s)),
      updateComponentFromState =
        (\<lambda>c s. Component (ref c) (parentComponent c) (componentID c) ''updated''
                  (childComponentList c))\<rparr>"

definition nodeA :: ValueTree where
  "nodeA = ValueTree ''button'' [(''id'', ''a'')] []"

definition nodeB :: ValueTree where
  "nodeB = ValueTree ''button'' [(''id'', ''b'')] []"

definition nodeR :: ValueTree where
  "nodeR = ValueTree ''panel'' [(''id'', ''root'')] [nodeA, nodeB]"

definition compA :: "string Component" where
  "compA = Component 1 (Some 0) ''a'' ''button'' []"

definition compB :: "string Component" where
  "compB = Component 2 (Some 0) ''b'' ''button'' []"

definition rootWith :: "string Component list \<Rightarrow> string Component" where
  "rootWith kids = Component 0 None ''root'' ''panel'' kids"

definition builderWith :: "string Component option \<Rightarrow> nat \<Rightarrow> string ComponentBuilder" where
  "builderWith c n =
     \<lparr>state = nodeR, types = [exampleHandler ''panel'', exampleHandler ''button''],
      component = c, nextRef = n, assertionFailed = False\<rparr>"

definition twinA :: "string Component" where
  "twinA = Component 2 (Some 0) ''a'' ''button'' []"

definition nodeX :: "Identifier \<Rightarrow> ValueTree" where
  "nodeX i = ValueTree ''slider'' [(''id'', i)] []"

definition passStart :: "'p ComponentBuilder \<Rightarrow> 'p Component \<Rightarrow> 'p pass" where
  "passStart b parent =
     \<lparr>existingComponents = childComponentList parent, componentsInOrder = [],
      parentNow = parent, builderNow = b\<rparr>"

definition leafNode :: ValueTree where
  "leafNode = ValueTree ''label'' [(''text'', ''hello'')] []"

definition nodeC :: ValueTree where
  "nodeC = ValueTree ''button'' [(''id'', ''c'')] []"

definition noHandlers :: "string ComponentBuilder" where
  "noHandlers = \<lparr>state = nodeR, types = [], component = None, nextRef = 0,
                  assertionFailed = False\<rparr>"

section \<open>Auxiliary facts\<close>

lemmas scenario_defs = exampleHandler_def nodeA_def nodeB_def nodeR_def compA_def compB_def
  rootWith_def builderWith_def getHandlerForState_def getStateId_def idProperty_def heapOK_def

lemma findInArray_Some:
  "i < n \<Longrightarrow> n \<le> length xs \<Longrightarrow> componentID (xs ! i) = cid \<Longrightarrow>
   (\<forall>j. i < j \<and> j < n \<longrightarrow> componentID (xs ! j) \<noteq> cid) \<Longrightarrow>
   findInArray n xs cid = Some (xs ! i, take i xs @ drop (Suc i) xs)"
proof (induction n)
  case 0
  then show ?case by simp
next
  case (Suc n)
  show ?case
  proof (cases "i = n")
    case True
    with Suc.prems show ?thesis by simp
  next
    case False
    with Suc.prems have "i < n" by simp
    moreover from Suc.prems False have "componentID (xs ! n) \<noteq> cid" by simp
    ultimately show ?thesis using Suc by simp
  qed
qed

lemma findInArray_None:
  "(\<forall>j < n. componentID (xs ! j) \<noteq> cid) \<Longrightarrow> findInArray n xs cid = None"
  by (induction n) simp_all

lemma findInArray_cases:
  "n \<le> length xs \<Longrightarrow>
   (findInArray n xs cid = None \<and> (\<forall>j < n. componentID (xs ! j) \<noteq> cid))
   \<or> (\<exists>i < n. componentID (xs ! i) = cid
         \<and> (\<forall>j. i < j \<and> j < n \<longrightarrow> componentID (xs ! j) \<noteq> cid)
         \<and> findInArray n xs cid = Some (xs ! i, take i xs @ drop (Suc i) xs))"
proof (induction n)
  case 0
  then show ?case by simp
next
  case (Suc n)
  show ?case
  proof (cases "componentID (xs ! n) = cid")
    case True
    then have "findInArray (Suc n) xs cid = Some (xs ! n, take n xs @ drop (Suc n) xs)"
      by simp
    with True show ?thesis by auto
  next
    case False
    from Suc have IH: "(findInArray n xs cid = None \<and> (\<forall>j < n. componentID (xs ! j) \<noteq> cid))
   \<or> (\<exists>i < n. componentID (xs ! i) = cid
         \<and> (\<forall>j. i < j \<and> j < n \<longrightarrow> componentID (xs ! j) \<noteq> cid)
         \<and> findInArray n xs cid = Some (xs ! i, take i xs @ drop (Suc i) xs))" by simp
    then show ?thesis
    proof
      assume a: "findInArray n xs cid = None \<and> (\<forall>j < n. componentID (xs ! j) \<noteq> cid)"
      with False have "\<forall>j < Suc n. componentID (xs ! j) \<noteq> cid"
        by (auto simp: less_Suc_eq)
      moreover from a False have "findInArray (Suc n) xs cid = None" by simp
      ultimately show ?thesis by blast
    next
      assume "\<exists>i < n. componentID (xs ! i) = cid
         \<and> (\<forall>j. i < j \<and> j < n \<longrightarrow> componentID (xs ! j) \<noteq> cid)
         \<and> findInArray n xs cid = Some (xs ! i, take i xs @ drop (Suc i) xs)"
      then obtain i where i: "i < n" "componentID (xs ! i) = cid"
        "\<forall>j. i < j \<and> j < n \<longrightarrow> componentID (xs ! j) \<noteq> cid"
        "findInArray n xs cid = Some (xs ! i, take i xs @ drop (Suc i) xs)" by blast
      from i(3) False have "\<forall>j. i < j \<and> j < Suc n \<longrightarrow> componentID (xs ! j) \<noteq> cid"
        by (auto simp: less_Suc_eq)
      moreover from i(4) False have "findInArray (Suc n) xs cid = Some (xs ! i, take i xs @ drop (Suc i) xs)"
        by simp
      ultimately show ?thesis using i(1,2) by (metis less_Suc_eq)
    qed
  qed
qed

lemma find_ref:
  "distinct (map ref xs) \<Longrightarrow> c \<in> set xs \<Longrightarrow> find (\<lambda>k. ref k = ref c) xs = Some c"
  by (induction xs) (auto simp: image_iff)

lemma filter_ref_id:
  "ref c \<notin> ref ` set xs \<Longrightarrow> filter (\<lambda>k. ref k \<noteq> ref c) xs = xs"
  by (induction xs) auto

lemma toFront_eq:
  "distinct (map ref kids) \<Longrightarrow> c \<in> set kids \<Longrightarrow>
   toFront (ref c) kids = filter (\<lambda>k. ref k \<noteq> ref c) kids @ [c]"
  by (simp add: toFront_def find_ref)

lemma toBehind_eq:
  assumes d: "distinct (map ref (pre @ x # post))" and c: "c \<in> set pre"
  shows "toBehind (ref c) (ref x) (pre @ x # post)
         = filter (\<lambda>k. ref k \<noteq> ref c) pre @ c # x # post"
proof -
  let ?kids = "pre @ x # post"
  from d c have ne: "ref c \<noteq> ref x" by (auto simp: image_iff)
  from d c have fc: "find (\<lambda>k. ref k = ref c) ?kids = Some c"
    by (intro find_ref) auto
  from d have fx: "find (\<lambda>k. ref k = ref x) ?kids = Some x"
    by (intro find_ref) auto
  from d c have "ref c \<notin> ref ` set post" by (auto simp: image_iff)
  then have fp: "filter (\<lambda>k. ref k \<noteq> ref c) post = post" by (rule filter_ref_id)
  have others: "filter (\<lambda>k. ref k \<noteq> ref c) ?kids = filter (\<lambda>k. ref k \<noteq> ref c) pre @ x # post"
    using ne fp by simp
  from d have nx: "\<forall>k \<in> set (filter (\<lambda>k. ref k \<noteq> ref c) pre). ref k \<noteq> ref x"
    by (auto simp: image_iff)
  have tw: "takeWhile (\<lambda>k. ref k \<noteq> ref x) (filter (\<lambda>k. ref k \<noteq> ref c) pre @ x # post)
            = filter (\<lambda>k. ref k \<noteq> ref c) pre"
  proof -
    have "takeWhile (\<lambda>k. ref k \<noteq> ref x) (filter (\<lambda>k. ref k \<noteq> ref c) pre @ x # post)
          = filter (\<lambda>k. ref k \<noteq> ref c) pre @ takeWhile (\<lambda>k. ref k \<noteq> ref x) (x # post)"
      by (rule takeWhile_append2) (use nx in blast)
    then show ?thesis by simp
  qed
  have dw: "dropWhile (\<lambda>k. ref k \<noteq> ref x) (filter (\<lambda>k. ref k \<noteq> ref c) pre @ x # post)
            = x # post"
  proof -
    have "dropWhile (\<lambda>k. ref k \<noteq> ref x) (filter (\<lambda>k. ref k \<noteq> ref c) pre @ x # post)
          = dropWhile (\<lambda>k. ref k \<noteq> ref x) (x # post)"
      by (rule dropWhile_append2) (use nx in blast)
    then show ?thesis by simp
  qed
  show ?thesis
    unfolding toBehind_def using ne fc fx others tw dw by (simp add: Let_def)
qed

lemma zOrderLoop_invariant:
  "k < length comps \<Longrightarrow> kids = pre @ drop k comps \<Longrightarrow> distinct (map ref kids) \<Longrightarrow>
   distinct (map ref comps) \<Longrightarrow> set kids = set comps \<Longrightarrow> zOrderLoop k comps kids = comps"
proof (induction k arbitrary: kids pre)
  case 0
  have "pre = []"
  proof (rule ccontr)
    assume "pre \<noteq> []"
    then obtain x where x: "x \<in> set pre" by (cases pre) auto
    with 0 have "x \<in> set comps" by auto
    with x 0 show False by (auto simp: image_iff)
  qed
  with 0 show ?case by simp
next
  case (Suc i)
  let ?c = "comps ! i" and ?x = "comps ! Suc i" and ?post = "drop (Suc (Suc i)) comps"
  from Suc.prems have dr: "drop (Suc i) comps = ?x # ?post"
    by (simp add: Cons_nth_drop_Suc)
  from Suc.prems have dri: "drop i comps = ?c # ?x # ?post"
    by (metis Cons_nth_drop_Suc Suc_lessD dr)
  from Suc.prems have kids: "kids = pre @ ?x # ?post" by (simp add: dr)
  have "distinct (map ref (drop i comps))"
    using Suc.prems(4) by (metis distinct_drop drop_map)
  then have cpost: "ref ?c \<notin> ref ` set (?x # ?post)"
    by (simp add: dri image_iff)
  have "?c \<in> set comps" using Suc.prems by simp
  then have "?c \<in> set kids" using Suc.prems by simp
  with cpost kids have cpre: "?c \<in> set pre" by auto
  let ?pre' = "filter (\<lambda>k. ref k \<noteq> ref ?c) pre"
  have step: "toBehind (ref ?c) (ref ?x) kids = ?pre' @ ?c # ?x # ?post"
    using toBehind_eq[of pre ?x ?post ?c] Suc.prems(3) cpre kids by simp
  have eq: "toBehind (ref ?c) (ref ?x) kids = ?pre' @ drop i comps"
    by (simp add: step dri)
  have dpre: "distinct (map ref pre)" using Suc.prems(3) kids by simp
  have setpre: "set ?pre' = set pre - {?c}"
    using dpre cpre by (auto simp: distinct_map inj_on_def)
  have d': "distinct (map ref (?pre' @ ?c # ?x # ?post))"
    using Suc.prems(3) cpost unfolding kids
    by (auto simp: distinct_map_filter image_iff)
  have "set (?pre' @ ?c # ?x # ?post) = set kids"
    unfolding kids using cpre dpre by (auto simp: distinct_map inj_on_def)
  then have s': "set (?pre' @ ?c # ?x # ?post) = set comps"
    using Suc.prems(5) by simp
  have "zOrderLoop i comps (?pre' @ drop i comps) = comps"
    using Suc.IH[of "?pre' @ drop i comps" ?pre'] Suc.prems d' s' by (simp add: dri)
  then show ?case by (simp add: eq)
qed

lemma zOrder_result:
  assumes "comps \<noteq> []" "distinct (map ref kids)" "distinct (map ref comps)"
    "set kids = set comps"
  shows "zOrderLoop (length comps - 1) comps (toFront (ref (last comps)) kids) = comps"
proof -
  let ?l = "last comps"
  from assms have lin: "?l \<in> set kids" by simp
  have tf: "toFront (ref ?l) kids = filter (\<lambda>k. ref k \<noteq> ref ?l) kids @ [?l]"
    using assms lin by (simp add: toFront_eq)
  have dl: "drop (length comps - 1) comps = [?l]"
    using assms(1) by (metis append_butlast_last_id append_eq_conv_conj length_butlast)
  have setf: "set (filter (\<lambda>k. ref k \<noteq> ref ?l) kids) = set kids - {?l}"
    using assms(2) lin by (auto simp: distinct_map inj_on_def)
  have d: "distinct (map ref (toFront (ref ?l) kids))"
    using assms(2) by (auto simp: tf distinct_map_filter image_iff)
  have "set (toFront (ref ?l) kids) = set kids"
    using lin assms(2) by (auto simp: tf distinct_map inj_on_def)
  then have s: "set (toFront (ref ?l) kids) = set comps"
    using assms(4) by simp
  have pre: "toFront (ref ?l) kids
             = filter (\<lambda>k. ref k \<noteq> ref ?l) kids @ drop (length comps - 1) comps"
    by (simp only: tf dl)
  have klt: "length comps - 1 < length comps" using assms(1) by simp
  show ?thesis by (rule zOrderLoop_invariant[OF klt pre d assms(3) s])
qed

lemma fold_deleteChild:
  "fold deleteChild pool kids = filter (\<lambda>k. ref k \<notin> ref ` set pool) kids"
proof (induction pool arbitrary: kids)
  case Nil
  then show ?case by simp
next
  case (Cons a pool)
  have "filter (\<lambda>k. ref k \<notin> ref ` set pool) (deleteChild a kids)
        = filter (\<lambda>k. ref k \<notin> ref ` set (a # pool)) kids"
    by (induction kids) (auto simp: deleteChild_def)
  with Cons show ?case by simp
qed

lemma find_array_Some:
  assumes "findComponentWithID_array xs cid = Some (c, remaining)"
  shows "\<exists>pre post. xs = pre @ c # post \<and> remaining = pre @ post \<and> componentID c = cid
           \<and> (\<forall>k \<in> set post. componentID k \<noteq> cid)"
proof -
  from findInArray_cases[of "length xs" xs cid] assms
  obtain i where i: "i < length xs" "componentID (xs ! i) = cid"
      "\<forall>j. i < j \<and> j < length xs \<longrightarrow> componentID (xs ! j) \<noteq> cid"
      "c = xs ! i" "remaining = take i xs @ drop (Suc i) xs"
    by (auto simp: findComponentWithID_array_def)
  have split: "xs = take i xs @ c # drop (Suc i) xs"
    using i(1,4) by (simp add: id_take_nth_drop)
  have "\<forall>k \<in> set (drop (Suc i) xs). componentID k \<noteq> cid"
  proof
    fix k assume "k \<in> set (drop (Suc i) xs)"
    then obtain m where m: "m < length (drop (Suc i) xs)" "k = drop (Suc i) xs ! m"
      by (auto simp: in_set_conv_nth)
    then have "k = xs ! (Suc i + m)" using i(1) by simp
    moreover from m(1) have "Suc i + m < length xs" by simp
    ultimately show "componentID k \<noteq> cid" using i(3) by simp
  qed
  with split i show ?thesis by blast
qed

lemma find_array_None:
  assumes "findComponentWithID_array xs cid = None"
  shows "\<forall>k \<in> set xs. componentID k \<noteq> cid"
proof -
  from findInArray_cases[of "length xs" xs cid] assms
  have "\<forall>j < length xs. componentID (xs ! j) \<noteq> cid"
    by (auto simp: findComponentWithID_array_def)
  then show ?thesis by (auto simp: in_set_conv_nth)
qed

lemma childStep_unhandled:
  "getHandlerForState (builderNow st) s = None \<Longrightarrow>
   childStep s st = st\<lparr>builderNow := (builderNow st)\<lparr>assertionFailed := True\<rparr>\<rparr>"
  by (simp add: childStep_def jassert_def)

lemma childStep_claim:
  "getHandlerForState (builderNow st) s = Some t \<Longrightarrow>
   findComponentWithID_array (existingComponents st) (getStateId s) = Some (c, remaining) \<Longrightarrow>
   childStep s st = st\<lparr>builderNow := jassert (getStateId s \<noteq> []) (builderNow st),
                     existingComponents := remaining,
                     componentsInOrder := componentsInOrder st @ [c]\<rparr>"
  by (simp add: childStep_def jassert_def)

lemma map_store_id:
  "\<forall>k \<in> set kids. ref k \<noteq> n \<Longrightarrow> map (\<lambda>k. if ref k = n then c else k) kids = kids"
  by (induction kids) auto

lemma childStep_create:
  "getHandlerForState (builderNow st) s = Some t \<Longrightarrow>
   findComponentWithID_array (existingComponents st) (getStateId s) = None \<Longrightarrow>
   \<forall>k \<in> set (childComponentList (parentNow st)). ref k \<noteq> nextRef (builderNow st) \<Longrightarrow>
   c = Component (nextRef (builderNow st)) (Some (ref (parentNow st))) (getStateId s)
         (snd (construct t s)) [] \<Longrightarrow>
   childStep s st = st\<lparr>builderNow := (jassert (getStateId s \<noteq> []) (builderNow st))
                        \<lparr>nextRef := Suc (nextRef (builderNow st))\<rparr>,
                     componentsInOrder := componentsInOrder st @ [c],
                     parentNow := setChildren (childComponentList (parentNow st) @ [c]) (parentNow st)\<rparr>"
  by (simp add: childStep_def jassert_def createNewComponent_def addNewComponentFromState_def
      storeChild_def setChildren_def setComponentID_def Let_def map_store_id)

lemma passInv_start:
  "heapOK b parent \<Longrightarrow>
   passInv (childComponentList parent) (nextRef b)
     \<lparr>existingComponents = childComponentList parent, componentsInOrder = [],
      parentNow = parent, builderNow = b\<rparr>"
  by (simp add: passInv_def heapOK_def list_all_iff)

lemma childStep_types: "types (builderNow (childStep s st)) = types (builderNow st)"
  by (simp add: childStep_def jassert_def Let_def split: option.splits prod.splits)

lemma getHandlerForState_types:
  "types b' = types b \<Longrightarrow> getHandlerForState b' s = getHandlerForState b s"
  by (simp add: getHandlerForState_def)

lemma passInv_step:
  assumes inv: "passInv kids0 n0 st"
  shows "passInv kids0 n0 (childStep s st)"
proof (cases "getHandlerForState (builderNow st) s")
  case None
  with inv show ?thesis by (simp add: childStep_unhandled passInv_def)
next
  case (Some t)
  show ?thesis
  proof (cases "findComponentWithID_array (existingComponents st) (getStateId s)")
    case None
    let ?n = "nextRef (builderNow st)"
    let ?c = "Component ?n (Some (ref (parentNow st))) (getStateId s) (snd (construct t s)) []"
    from inv have fresh: "\<forall>k \<in> set (childComponentList (parentNow st)). ref k \<noteq> ?n"
      by (auto simp: passInv_def)
    have step: "childStep s st = st\<lparr>builderNow := (jassert (getStateId s \<noteq> []) (builderNow st))
                        \<lparr>nextRef := Suc ?n\<rparr>,
                     componentsInOrder := componentsInOrder st @ [?c],
                     parentNow := setChildren (childComponentList (parentNow st) @ [?c]) (parentNow st)\<rparr>"
      by (rule childStep_create[OF Some None fresh refl])
    from inv fresh have "?n \<notin> ref ` set (existingComponents st @ componentsInOrder st)"
      unfolding passInv_def by (metis image_iff set_append)
    with inv fresh show ?thesis
      unfolding step passInv_def
      by (auto simp: setChildren_def jassert_def image_iff less_Suc_eq)
  next
    case (Some a)
    obtain c remaining where a: "a = (c, remaining)" by (cases a)
    from find_array_Some[OF Some[unfolded a]] obtain pre post where
      sp: "existingComponents st = pre @ c # post" "remaining = pre @ post" by blast
    have step: "childStep s st = st\<lparr>builderNow := jassert (getStateId s \<noteq> []) (builderNow st),
                     existingComponents := remaining,
                     componentsInOrder := componentsInOrder st @ [c]\<rparr>"
      by (rule childStep_claim[OF \<open>getHandlerForState (builderNow st) s = Some t\<close> Some[unfolded a]])
    from inv show ?thesis
      unfolding step passInv_def sp
      by (auto simp: jassert_def)
  qed
qed

lemma passInv_loop: "passInv kids0 n0 st \<Longrightarrow> passInv kids0 n0 (childLoop ss st)"
  by (induction ss arbitrary: st) (simp_all add: passInv_step)

lemma childLoop_types: "types (builderNow (childLoop ss st)) = types (builderNow st)"
  by (induction ss arbitrary: st) (simp_all add: childStep_types)

lemma childStep_ids:
  "map componentID (componentsInOrder (childStep s st))
   = map componentID (componentsInOrder st)
     @ (if getHandlerForState (builderNow st) s \<noteq> None then [getStateId s] else [])"
proof (cases "getHandlerForState (builderNow st) s")
  case None
  then show ?thesis by (simp add: childStep_unhandled)
next
  case (Some t)
  show ?thesis
  proof (cases "findComponentWithID_array (existingComponents st) (getStateId s)")
    case None
    with Some show ?thesis
      by (simp add: childStep_def createNewComponent_def addNewComponentFromState_def
          setComponentID_def Let_def)
  next
    case (Some a)
    obtain c remaining where a: "a = (c, remaining)" by (cases a)
    from find_array_Some[OF Some[unfolded a]] have "componentID c = getStateId s" by blast
    with childStep_claim[OF \<open>getHandlerForState (builderNow st) s = Some t\<close> Some[unfolded a]]
    show ?thesis using \<open>getHandlerForState (builderNow st) s = Some t\<close> by simp
  qed
qed

lemma childLoop_ids:
  "map componentID (componentsInOrder (childLoop ss st))
   = map componentID (componentsInOrder st)
     @ map getStateId (filter (\<lambda>s. getHandlerForState (builderNow st) s \<noteq> None) ss)"
proof (induction ss arbitrary: st)
  case Nil
  then show ?case by simp
next
  case (Cons s ss)
  have h: "\<And>x. getHandlerForState (builderNow (childStep s st)) x
               = getHandlerForState (builderNow st) x"
    by (rule getHandlerForState_types) (rule childStep_types)
  show ?case
    by (simp add: Cons.IH childStep_ids h)
qed

text \<open>What the pass leaves: the parent's children are exactly componentsInOrder.\<close>

lemma updateChildComponents_children:
  assumes ok: "heapOK b parent"
  shows "childComponentList (fst (updateChildComponents b parent children))
         = componentsInOrder (childLoop (getChildren children)
             \<lparr>existingComponents = childComponentList parent, componentsInOrder = [],
              parentNow = parent, builderNow = b\<rparr>)"
proof -
  let ?st0 = "\<lparr>existingComponents = childComponentList parent, componentsInOrder = [],
              parentNow = parent, builderNow = b\<rparr>"
  let ?st = "childLoop (getChildren children) ?st0"
  let ?kids = "childComponentList (parentNow ?st)"
  let ?kids1 = "fold deleteChild (existingComponents ?st) ?kids"
  let ?comps = "componentsInOrder ?st"
  have inv: "passInv (childComponentList parent) (nextRef b) ?st"
    by (rule passInv_loop) (rule passInv_start[OF ok])
  have k1: "?kids1 = filter (\<lambda>k. ref k \<notin> ref ` set (existingComponents ?st)) ?kids"
    by (rule fold_deleteChild)
  from inv have d: "distinct (map ref ?kids)"
    and u: "set (existingComponents ?st) \<union> set ?comps = set ?kids"
    and dd: "distinct (map ref (existingComponents ?st @ ?comps))"
    by (simp_all add: passInv_def)
  have d1: "distinct (map ref ?kids1)"
    unfolding k1 using d by (rule distinct_map_filter)
  from dd have disj: "ref ` set (existingComponents ?st) \<inter> ref ` set ?comps = {}"
    and dc: "distinct (map ref ?comps)"
    by simp_all
  have s1: "set ?kids1 = set ?comps"
    unfolding k1 using u disj by auto
  have res: "childComponentList (fst (updateChildComponents b parent children))
       = (if ?comps \<noteq> [] then zOrderLoop (length ?comps - 1) ?comps (toFront (ref (last ?comps)) ?kids1)
          else ?kids1)"
    by (simp add: updateChildComponents_def Let_def setChildren_def)
  show ?thesis
  proof (cases "?comps = []")
    case True
    with s1 have "?kids1 = []" by simp
    with True res show ?thesis by simp
  next
    case False
    from zOrder_result[OF False d1 dc s1] res False show ?thesis by simp
  qed
qed

lemma find_array_head:
  assumes "componentID k = cid" "cid \<notin> set (map componentID ks)"
  shows "findComponentWithID_array (k # ks) cid = Some (k, ks)"
proof -
  have "\<forall>j. 0 < j \<and> j < length (k # ks) \<longrightarrow> componentID ((k # ks) ! j) \<noteq> cid"
  proof (intro allI impI)
    fix j assume j: "0 < j \<and> j < length (k # ks)"
    then obtain m where m: "j = Suc m" by (cases j) auto
    with j have "ks ! m \<in> set ks" by simp
    with assms(2) m show "componentID ((k # ks) ! j) \<noteq> cid" by auto
  qed
  from findInArray_Some[of 0 "length (k # ks)" "k # ks" cid, OF _ _ _ this] assms(1)
  show ?thesis by (simp add: findComponentWithID_array_def)
qed

lemma childLoop_reuse:
  "\<forall>s \<in> set ss. getHandlerForState (builderNow st) s \<noteq> None \<and> getStateId s \<noteq> [] \<Longrightarrow>
   map componentID (existingComponents st) = map getStateId ss \<Longrightarrow>
   distinct (map getStateId ss) \<Longrightarrow>
   childLoop ss st = st\<lparr>existingComponents := [],
                        componentsInOrder := componentsInOrder st @ existingComponents st\<rparr>"
proof (induction ss arbitrary: st)
  case Nil
  then show ?case by simp
next
  case (Cons s ss)
  from Cons.prems(2) obtain k ks where pool: "existingComponents st = k # ks"
    and k: "componentID k = getStateId s" and ks: "map componentID ks = map getStateId ss"
    by (cases "existingComponents st") auto
  from Cons.prems(1) obtain t where t: "getHandlerForState (builderNow st) s = Some t"
    and ne: "getStateId s \<noteq> []" by auto
  from Cons.prems(3) ks have "getStateId s \<notin> set (map componentID ks)" by simp
  from find_array_head[OF k this]
  have f: "findComponentWithID_array (existingComponents st) (getStateId s) = Some (k, ks)"
    by (simp add: pool)
  have step: "childStep s st = st\<lparr>existingComponents := ks,
                     componentsInOrder := componentsInOrder st @ [k]\<rparr>"
    using childStep_claim[OF t f] ne by (simp add: jassert_def)
  have "childLoop ss (childStep s st)
        = (childStep s st)\<lparr>existingComponents := [],
             componentsInOrder := componentsInOrder (childStep s st) @ existingComponents (childStep s st)\<rparr>"
    using Cons.prems by (intro Cons.IH) (simp_all add: step ks)
  then show ?case by (simp add: step pool)
qed

lemma setChildren_same: "setChildren (childComponentList p) p = p"
  by (cases p) (simp add: setChildren_def)

lemma searchOrder_unfold:
  "searchOrder c = c # concat (map searchOrder (rev (childComponentList c)))"
  by (cases c) simp

lemma find_append_first:
  "find P (xs @ ys) = (case find P xs of Some x \<Rightarrow> Some x | None \<Rightarrow> find P ys)"
  by (induction xs) simp_all

lemma find_searchOrder:
  fixes c :: "'p Component" and ks :: "'p Component list"
  shows "findComponentWithID c compId = find (\<lambda>k. componentID k = compId) (searchOrder c)"
    and "findInChildren ks compId = find (\<lambda>k. componentID k = compId) (concat (map searchOrder ks))"
proof (induction c compId and ks compId rule: findComponentWithID_findInChildren.induct)
  case (1 c compId)
  show ?case
  proof (cases "componentID c = compId")
    case True
    then show ?thesis by (subst searchOrder_unfold) simp
  next
    case False
    with 1 show ?thesis by (subst searchOrder_unfold) simp
  qed
next
  case (2 compId)
  show ?case by simp
next
  case (3 k ks compId)
  then show ?case
    by (simp add: find_append_first split: option.splits)
qed

lemma updateChildComponents_ids:
  assumes ok: "heapOK b parent"
  shows "map componentID (childComponentList (fst (updateChildComponents b parent children)))
         = map getStateId (filter (\<lambda>s. getHandlerForState b s \<noteq> None) (getChildren children))"
  by (simp add: updateChildComponents_children[OF ok] childLoop_ids)

declare updateComponent.simps [simp del]
declare findComponentWithID.simps [simp del]

lemma getManagedComponent_types:
  "getManagedComponent b = (c, b') \<Longrightarrow> types b' = types b"
  by (auto simp: getManagedComponent_def createComponent_def jassert_def Let_def
      split: if_splits option.splits prod.splits)

lemma getManagedComponent_component:
  "getManagedComponent b = (c, b') \<Longrightarrow> component b' = c"
  by (auto simp: getManagedComponent_def createComponent_def jassert_def Let_def
      split: if_splits option.splits prod.splits)

lemma getManagedComponent_again:
  assumes "getManagedComponent b = (Some root, b')"
  shows "getManagedComponent b' = (Some root, b')"
proof -
  from assms have "component b' = Some root" by (rule getManagedComponent_component)
  then show ?thesis by (simp add: getManagedComponent_def)
qed

lemma getManagedComponent_existing:
  "component b = Some root \<Longrightarrow> getManagedComponent b = (Some root, b)"
  by (simp add: getManagedComponent_def)

lemma updateComponent_no_root:
  "getManagedComponent b = (None, b') \<Longrightarrow> updateComponent b N ps = b'"
  by (subst updateComponent.simps) simp

lemma updateComponent_fixed:
  assumes g: "getManagedComponent b' = (Some root, b')"
  shows "updateComponent b' N ps =
     (case resolveNode b' N ps of
        None \<Rightarrow> b'
      | Some R \<Rightarrow>
          (case findComponentWithID root (getStateId R) of
             None \<Rightarrow> b'
           | Some c \<Rightarrow> b'\<lparr>component := Some (replaceComponent (ref c)
                 (updateComponentFromState (the (getHandlerForState b' R)) c R) root)\<rparr>))"
proof (induction ps arbitrary: N)
  case Nil
  show ?case
    by (subst updateComponent.simps) (auto simp: g resolveNode_def Let_def)
next
  case (Cons p ps)
  show ?case
  proof (cases "getHandlerForState b' N = None \<or> getStateId N = []")
    case True
    then have "updateComponent b' N (p # ps) = updateComponent b' p ps"
      by (subst updateComponent.simps) (simp add: g Let_def)
    moreover from True have "resolveNode b' N (p # ps) = resolveNode b' p ps"
      by (auto simp: resolveNode_def)
    ultimately show ?thesis by (simp add: Cons.IH)
  next
    case False
    then have "resolveNode b' N (p # ps) = Some N" by (simp add: resolveNode_def)
    with False show ?thesis
      by (subst updateComponent.simps) (auto simp: g Let_def)
  qed
qed

lemma updateComponent_via_managed:
  assumes g: "getManagedComponent b = (Some root, b')"
  shows "updateComponent b N ps = updateComponent b' N ps"
proof -
  note g' = getManagedComponent_again[OF g]
  have "updateComponent b N ps =
     (let type = getHandlerForState b' N; uid = getStateId N
      in if type = None \<or> uid = []
         then (case ps of [] \<Rightarrow> b' | p # ps' \<Rightarrow> updateComponent b' p ps')
         else (case findComponentWithID root uid of
                 None \<Rightarrow> b'
               | Some changedComp \<Rightarrow>
                   b'\<lparr>component := Some (replaceComponent (ref changedComp)
                       (updateComponentFromState (the type) changedComp N) root)\<rparr>))"
    by (subst updateComponent.simps) (simp add: g)
  also have "\<dots> = updateComponent b' N ps"
    by (subst (2) updateComponent.simps) (simp add: g')
  finally show ?thesis .
qed

lemma resolveNode_types:
  "types b' = types b \<Longrightarrow> resolveNode b' N ps = resolveNode b N ps"
  by (simp add: resolveNode_def getHandlerForState_def)

lemma updateComponent_resolved:
  assumes g: "getManagedComponent b = (Some root, b')"
  shows "updateComponent b N ps =
     (case resolveNode b N ps of
        None \<Rightarrow> b'
      | Some R \<Rightarrow>
          (case findComponentWithID root (getStateId R) of
             None \<Rightarrow> b'
           | Some c \<Rightarrow> b'\<lparr>component := Some (replaceComponent (ref c)
                 (updateComponentFromState (the (getHandlerForState b R)) c R) root)\<rparr>))"
proof -
  have t: "types b' = types b" using g by (rule getManagedComponent_types)
  have h: "\<And>s. getHandlerForState b' s = getHandlerForState b s"
    using t by (rule getHandlerForState_types)
  show ?thesis
    unfolding updateComponent_via_managed[OF g]
      updateComponent_fixed[OF getManagedComponent_again[OF g]]
      resolveNode_types[OF t] h ..
qed

lemma updateComponent_step:
  assumes "getHandlerForState b N = None \<or> getStateId N = []"
  shows "updateComponent b N (p # ps) = updateComponent b p ps"
proof (cases "getManagedComponent b")
  case (Pair c b')
  show ?thesis
  proof (cases c)
    case None
    with Pair show ?thesis by (simp add: updateComponent_no_root)
  next
    case (Some root)
    with Pair have g: "getManagedComponent b = (Some root, b')" by simp
    from assms have "resolveNode b N (p # ps) = resolveNode b p ps"
      by (auto simp: resolveNode_def)
    then show ?thesis by (simp add: updateComponent_resolved[OF g])
  qed
qed

lemma updateComponent_keeps_root:
  assumes "getManagedComponent b = (Some root, b')"
  shows "component (updateComponent b N ps) \<noteq> None"
  using getManagedComponent_component[OF assms]
  by (simp add: updateComponent_resolved[OF assms] split: option.splits)

lemma createComponent_handled:
  assumes "getHandlerForState b (state b) = Some h"
  shows "createComponent b
         = (Some (Component (nextRef b) None (getStateId (state b))
                    (snd (construct h (state b))) []),
            b\<lparr>nextRef := Suc (nextRef b)\<rparr>)"
proof -
  from assms have ne: "types b \<noteq> []" by (auto simp: getHandlerForState_def)
  then have j: "jassert (types b \<noteq> []) b = b" by (simp add: jassert_def)
  show ?thesis
    unfolding createComponent_def j Let_def
    using assms
    by (simp add: jassert_def createNewComponent_def addNewComponentFromState_def
        setComponentID_def)
qed

lemmas builder_eval = getManagedComponent_def createComponent_def createNewComponent_def
  addNewComponentFromState_def setComponentID_def jassert_def resolveNode_def
  findComponentWithID.simps Let_def

lemma childLoop_append: "childLoop (xs @ ys) st = childLoop ys (childLoop xs st)"
  by (induction xs arbitrary: st) simp_all

lemma childStep_create_raw:
  "getHandlerForState (builderNow st) s = Some t \<Longrightarrow>
   findComponentWithID_array (existingComponents st) (getStateId s) = None \<Longrightarrow>
   childStep s st = st\<lparr>builderNow := (jassert (getStateId s \<noteq> []) (builderNow st))
                        \<lparr>nextRef := Suc (nextRef (builderNow st))\<rparr>,
        componentsInOrder := componentsInOrder st
           @ [Component (nextRef (builderNow st)) (Some (ref (parentNow st))) (getStateId s)
                (snd (construct t s)) []],
        parentNow := setChildren (map (\<lambda>k. if ref k = nextRef (builderNow st)
             then Component (nextRef (builderNow st)) (Some (ref (parentNow st))) (getStateId s)
                (snd (construct t s)) [] else k)
             (childComponentList (parentNow st) @ [Component (nextRef (builderNow st))
                (Some (ref (parentNow st))) (fst (construct t s)) (snd (construct t s)) []]))
           (parentNow st)\<rparr>"
  by (simp add: childStep_def jassert_def createNewComponent_def addNewComponentFromState_def
          storeChild_def setChildren_def setComponentID_def Let_def)

lemma childStep_cases:
  assumes "getHandlerForState (builderNow st) s = None \<Longrightarrow>
             childStep s st = st\<lparr>builderNow := (builderNow st)\<lparr>assertionFailed := True\<rparr>\<rparr> \<Longrightarrow> Q"
    and "\<And>c remaining. childStep s st = st\<lparr>builderNow := jassert (getStateId s \<noteq> []) (builderNow st),
                     existingComponents := remaining,
                     componentsInOrder := componentsInOrder st @ [c]\<rparr> \<Longrightarrow> Q"
    and "\<And>c kids'. childStep s st = st\<lparr>builderNow := (jassert (getStateId s \<noteq> []) (builderNow st))
                        \<lparr>nextRef := Suc (nextRef (builderNow st))\<rparr>,
        componentsInOrder := componentsInOrder st @ [c],
        parentNow := setChildren kids' (parentNow st)\<rparr> \<Longrightarrow> Q"
  shows Q
proof (cases "getHandlerForState (builderNow st) s")
  case None
  then show ?thesis by (rule assms(1)) (rule childStep_unhandled[OF None])
next
  case (Some t)
  show ?thesis
  proof (cases "findComponentWithID_array (existingComponents st) (getStateId s)")
    case None
    show ?thesis by (rule assms(3)) (rule childStep_create_raw[OF Some None])
  next
    case (Some a)
    obtain c remaining where a: "a = (c, remaining)" by (cases a)
    show ?thesis
      by (rule assms(2))
        (rule childStep_claim[OF \<open>getHandlerForState (builderNow st) s = Some t\<close> Some[unfolded a]])
  qed
qed

lemma childStep_prefix:
  "\<exists>new. componentsInOrder (childStep s st) = componentsInOrder st @ new"
  by (rule childStep_cases[of st s]) simp_all

lemma childLoop_prefix:
  "\<exists>new. componentsInOrder (childLoop ss st) = componentsInOrder st @ new"
proof (induction ss arbitrary: st)
  case Nil
  then show ?case by simp
next
  case (Cons s ss)
  from childStep_prefix[of s st] obtain n1 where
    n1: "componentsInOrder (childStep s st) = componentsInOrder st @ n1" by (elim exE)
  from Cons[of "childStep s st"] obtain n2 where
    "componentsInOrder (childLoop ss (childStep s st)) = componentsInOrder (childStep s st) @ n2"
    by (elim exE)
  with n1 show ?case by simp
qed

lemma childStep_parent_ref: "ref (parentNow (childStep s st)) = ref (parentNow st)"
  by (rule childStep_cases[of st s]) (simp_all add: setChildren_def)

lemma childLoop_parent_ref: "ref (parentNow (childLoop ss st)) = ref (parentNow st)"
  by (induction ss arbitrary: st) (simp_all add: childStep_parent_ref)

lemma childStep_assertion:
  "assertionFailed (builderNow st) \<Longrightarrow> assertionFailed (builderNow (childStep s st))"
  by (rule childStep_cases[of st s]) (simp_all add: jassert_def)

lemma childLoop_assertion:
  "assertionFailed (builderNow st) \<Longrightarrow> assertionFailed (builderNow (childLoop ss st))"
  by (induction ss arbitrary: st) (simp_all add: childStep_assertion)

lemma childLoop_unhandled_asserts:
  assumes "C \<in> set ss" "getHandlerForState (builderNow st) C = None"
  shows "assertionFailed (builderNow (childLoop ss st))"
proof -
  from assms(1) obtain xs ys where ss: "ss = xs @ C # ys" by (auto simp: in_set_conv_decomp)
  let ?st = "childLoop xs st"
  have "types (builderNow ?st) = types (builderNow st)" by (rule childLoop_types)
  then have "getHandlerForState (builderNow ?st) C = None"
    using assms(2) by (simp add: getHandlerForState_def)
  then have "assertionFailed (builderNow (childStep C ?st))"
    by (simp add: childStep_unhandled)
  then have "assertionFailed (builderNow (childLoop ys (childStep C ?st)))"
    by (rule childLoop_assertion)
  then show ?thesis by (simp add: ss childLoop_append)
qed

lemma replaceComponent_refs:
  "(\<forall>x \<in> set (searchOrder t). ref x = r \<longrightarrow>
       map ref (searchOrder new) = map ref (searchOrder x)) \<Longrightarrow>
   map ref (searchOrder (replaceComponent r new t)) = map ref (searchOrder t)"
proof (induction t rule: searchOrder.induct)
  case (1 r' par cid p kids)
  show ?case
  proof (cases "r' = r")
    case True
    with 1(2) show ?thesis by simp
  next
    case False
    have "\<forall>k \<in> set kids. map ref (searchOrder (replaceComponent r new k)) = map ref (searchOrder k)"
    proof
      fix k assume k: "k \<in> set kids"
      then have "k \<in> set (rev kids)" by simp
      moreover have "\<forall>x \<in> set (searchOrder k). ref x = r \<longrightarrow>
         map ref (searchOrder new) = map ref (searchOrder x)"
        using 1(2) k by auto
      ultimately show "map ref (searchOrder (replaceComponent r new k)) = map ref (searchOrder k)"
        by (rule 1(1))
    qed
    then have "map (\<lambda>k. map ref (searchOrder (replaceComponent r new k))) (rev kids)
               = map (\<lambda>k. map ref (searchOrder k)) (rev kids)"
      by simp
    then have "concat (map (\<lambda>k. map ref (searchOrder (replaceComponent r new k))) (rev kids))
               = concat (map (\<lambda>k. map ref (searchOrder k)) (rev kids))"
      by (rule arg_cong)
    with False show ?thesis
      by (simp add: map_concat rev_map comp_def)
  qed
qed

lemma findComponentWithID_member:
  "findComponentWithID root cid = Some c \<Longrightarrow> c \<in> set (searchOrder root)"
  by (simp add: find_searchOrder(1) find_Some_iff) (metis nth_mem)

lemma getManagedComponent_new_root:
  "component b = None \<Longrightarrow> getManagedComponent b = (Some root, b') \<Longrightarrow>
   childComponentList root = []"
  by (auto simp: getManagedComponent_def createComponent_def createNewComponent_def
      addNewComponentFromState_def setComponentID_def Let_def split: option.splits)

lemma getHandlerForState_member:
  "getHandlerForState b s = Some h \<Longrightarrow> h \<in> set (types b)"
  by (simp add: getHandlerForState_def find_Some_iff) (metis nth_mem)

lemma resolveNode_handled:
  "resolveNode b N ps = Some R \<Longrightarrow> \<exists>h. getHandlerForState b R = Some h"
proof -
  assume "resolveNode b N ps = Some R"
  then have "find (\<lambda>s. getHandlerForState b s \<noteq> None \<and> getStateId s \<noteq> []) (N # ps) = Some R"
    by (simp only: resolveNode_def)
  then have "getHandlerForState b R \<noteq> None"
    unfolding find_Some_iff by blast
  then show ?thesis by auto
qed

lemma updateComponent_keeps_structure:
  assumes keep: "\<forall>h \<in> set (types b). \<forall>c s.
        map ref (searchOrder (updateComponentFromState h c s)) = map ref (searchOrder c)"
    and uniq: "\<forall>root. component b = Some root \<longrightarrow> distinct (map ref (searchOrder root))"
    and g: "getManagedComponent b = (Some root, b')"
  shows "map_option (\<lambda>c. map ref (searchOrder c)) (component (updateComponent b N ps))
         = Some (map ref (searchOrder root))"
proof -
  have cb': "component b' = Some root" using g by (rule getManagedComponent_component)
  have d: "distinct (map ref (searchOrder root))"
  proof (cases "component b")
    case None
    from getManagedComponent_new_root[OF None g] have "searchOrder root = [root]"
      by (cases root) simp
    then show ?thesis by simp
  next
    case (Some r0)
    then have "getManagedComponent b = (Some r0, b)" by (rule getManagedComponent_existing)
    with g have "r0 = root" by simp
    with Some uniq show ?thesis by simp
  qed
  show ?thesis
  proof (cases "resolveNode b N ps")
    case None
    then show ?thesis by (simp add: updateComponent_resolved[OF g] cb')
  next
    case (Some R)
    show ?thesis
    proof (cases "findComponentWithID root (getStateId R)")
      case None
      with Some show ?thesis by (simp add: updateComponent_resolved[OF g] cb')
    next
      case (Some c)
      from resolveNode_handled[OF \<open>resolveNode b N ps = Some R\<close>] obtain h where
        h: "getHandlerForState b R = Some h" by blast
      then have hin: "h \<in> set (types b)" by (rule getHandlerForState_member)
      let ?new = "updateComponentFromState h c R"
      from keep hin have kn: "map ref (searchOrder ?new) = map ref (searchOrder c)" by blast
      have cin: "c \<in> set (searchOrder root)" using Some by (rule findComponentWithID_member)
      from d have inj: "inj_on ref (set (searchOrder root))" by (simp add: distinct_map)
      have "\<forall>x \<in> set (searchOrder root). ref x = ref c \<longrightarrow>
              map ref (searchOrder ?new) = map ref (searchOrder x)"
      proof (intro ballI impI)
        fix x assume "x \<in> set (searchOrder root)" "ref x = ref c"
        with inj cin have "x = c" by (auto dest: inj_onD)
        with kn show "map ref (searchOrder ?new) = map ref (searchOrder x)" by simp
      qed
      then have "map ref (searchOrder (replaceComponent (ref c) ?new root))
                 = map ref (searchOrder root)"
        by (rule replaceComponent_refs)
      with Some \<open>resolveNode b N ps = Some R\<close> h show ?thesis
        by (simp add: updateComponent_resolved[OF g])
    qed
  qed
qed

lemma updateComponent_characterised:
  "updateComponent b N parents =
     (case getManagedComponent b of
        (None, b') \<Rightarrow> b'
      | (Some root, b') \<Rightarrow>
          (case resolveNode b N parents of
             None \<Rightarrow> b'
           | Some R \<Rightarrow>
               (case findComponentWithID root (getStateId R) of
                  None \<Rightarrow> b'
                | Some changedComp \<Rightarrow>
                    b'\<lparr>component := Some (replaceComponent (ref changedComp)
                        (updateComponentFromState (the (getHandlerForState b R)) changedComp R)
                        root)\<rparr>)))"
proof (cases "getManagedComponent b")
  case (Pair c b')
  show ?thesis
  proof (cases c)
    case None
    with Pair show ?thesis by (simp add: updateComponent_no_root)
  next
    case (Some root)
    with Pair have g: "getManagedComponent b = (Some root, b')" by simp
    show ?thesis by (simp add: g updateComponent_resolved[OF g])
  qed
qed

lemma createComponent_unhandled:
  assumes "getHandlerForState b (state b) = None"
  shows "fst (createComponent b) = None \<and> assertionFailed (snd (createComponent b))
         \<and> component (snd (createComponent b)) = component b"
  using assms
  by (simp add: createComponent_def jassert_def Let_def getHandlerForState_def)

section \<open>Child-list reconciliation\<close>

text \<open>
  C1. Let every child state node of \<open>children\<close> have a registered handler. After
  \<open>updateChildComponents b parent children\<close> the child list of the parent is the list
  \<open>componentsInOrder\<close> that the loop built, one component per child state node in the
  order of the state nodes: the component of the last state node is the last (topmost)
  child and each other one stands directly before its successor. The component IDs of
  the children, read in list order, are the identifiers of the child state nodes.
\<close>

theorem children_follow_state_order:
  assumes ok: "heapOK b parent"
    and handled: "\<forall>s \<in> set (getChildren children). getHandlerForState b s \<noteq> None"
  shows "childComponentList (fst (updateChildComponents b parent children))
           = componentsInOrder (childLoop (getChildren children)
               \<lparr>existingComponents = childComponentList parent, componentsInOrder = [],
                parentNow = parent, builderNow = b\<rparr>)
         \<and> map componentID (childComponentList (fst (updateChildComponents b parent children)))
           = map getStateId (getChildren children)"
proof -
  have "filter (\<lambda>s. getHandlerForState b s \<noteq> None) (getChildren children) = getChildren children"
    using handled by (simp add: filter_id_conv)
  then show ?thesis
    by (simp add: updateChildComponents_children[OF ok] childLoop_ids)
qed

theorem children_follow_state_order_witness:
  "heapOK (builderWith None 3) (rootWith [compB, compA])
   \<and> map componentID (childComponentList
         (fst (updateChildComponents (builderWith None 3) (rootWith [compB, compA]) nodeR)))
     = [''a'', ''b'']"
proof -
  have ok: "heapOK (builderWith None 3) (rootWith [compB, compA])"
    by (simp add: scenario_defs)
  have handled: "\<forall>s \<in> set (getChildren nodeR).
      getHandlerForState (builderWith None 3) s \<noteq> None"
    by (simp add: scenario_defs)
  have ids: "map getStateId (getChildren nodeR) = [''a'', ''b'']"
    by (simp add: scenario_defs)
  have "map componentID (childComponentList
         (fst (updateChildComponents (builderWith None 3) (rootWith [compB, compA]) nodeR)))
     = map getStateId (getChildren nodeR)"
    using children_follow_state_order[OF ok handled] by (rule conjunct2)
  then have "map componentID (childComponentList
         (fst (updateChildComponents (builderWith None 3) (rootWith [compB, compA]) nodeR)))
     = [''a'', ''b'']"
    using ids by (rule trans)
  with ok show ?thesis by (rule conjI)
qed

text \<open>
  C2. Let every child state node have a registered handler and a non-empty identifier,
  let the identifiers be unique among the siblings and equal, in order, to the component
  IDs of the parent's children. Then the pass changes nothing: every identifier is found
  in the pool, the ordered list is the list of the existing children (the same objects),
  the pool is empty when the loop ends, so nothing is disposed, no address is allocated,
  so nothing is created, and parent and builder come back as they went in.
\<close>

theorem reconcile_twice_is_identity:
  assumes ok: "heapOK b parent"
    and handled: "\<forall>s \<in> set (getChildren children).
                    getHandlerForState b s \<noteq> None \<and> getStateId s \<noteq> []"
    and uniq: "distinct (map getStateId (getChildren children))"
    and same: "map componentID (childComponentList parent) = map getStateId (getChildren children)"
  shows "updateChildComponents b parent children = (parent, b)
         \<and> childLoop (getChildren children)
             \<lparr>existingComponents = childComponentList parent, componentsInOrder = [],
              parentNow = parent, builderNow = b\<rparr>
            = \<lparr>existingComponents = [], componentsInOrder = childComponentList parent,
               parentNow = parent, builderNow = b\<rparr>"
proof -
  let ?st0 = "\<lparr>existingComponents = childComponentList parent, componentsInOrder = [],
              parentNow = parent, builderNow = b\<rparr>"
  have loop: "childLoop (getChildren children) ?st0
        = \<lparr>existingComponents = [], componentsInOrder = childComponentList parent,
               parentNow = parent, builderNow = b\<rparr>"
    using childLoop_reuse[of "getChildren children" ?st0] handled uniq same by simp
  from ok have d: "distinct (map ref (childComponentList parent))" by (simp add: heapOK_def)
  let ?kids = "childComponentList parent"
  have u: "updateChildComponents b parent children
        = (setChildren (if ?kids \<noteq> []
                        then zOrderLoop (length ?kids - 1) ?kids (toFront (ref (last ?kids)) ?kids)
                        else ?kids) parent, b)"
    unfolding updateChildComponents_def loop by (simp add: Let_def)
  have "updateChildComponents b parent children = (parent, b)"
  proof (cases "?kids = []")
    case True
    show ?thesis unfolding u using True setChildren_same[of parent] by simp
  next
    case False
    show ?thesis unfolding u using zOrder_result[OF False d d refl] False
      by (simp add: setChildren_same)
  qed
  with loop show ?thesis by simp
qed

theorem reconcile_twice_is_identity_witness:
  "heapOK (builderWith None 3) (rootWith [compA, compB])
   \<and> updateChildComponents (builderWith None 3) (rootWith [compA, compB]) nodeR
     = (rootWith [compA, compB], builderWith None 3)"
proof -
  have ok: "heapOK (builderWith None 3) (rootWith [compA, compB])"
    by (simp add: scenario_defs)
  have handled: "\<forall>s \<in> set (getChildren nodeR).
      getHandlerForState (builderWith None 3) s \<noteq> None \<and> getStateId s \<noteq> []"
    by (simp add: scenario_defs)
  have uniq: "distinct (map getStateId (getChildren nodeR))"
    by (simp add: scenario_defs)
  have same: "map componentID (childComponentList (rootWith [compA, compB]))
              = map getStateId (getChildren nodeR)"
    by (simp add: scenario_defs)
  have "updateChildComponents (builderWith None 3) (rootWith [compA, compB]) nodeR
     = (rootWith [compA, compB], builderWith None 3)"
    using reconcile_twice_is_identity[OF ok handled uniq same] by (rule conjunct1)
  with ok show ?thesis by (rule conjI)
qed

text \<open>
  C3. The lookup in the pool claims the last match, not the first: it returns the
  component with the highest index among those whose ID is the identifier, and takes it
  out of the pool; every other component, an earlier match included, stays in the pool
  in its place. It finds nothing exactly when no component of the pool has that ID.
\<close>

theorem pool_lookup_claims_last_match:
  "(findComponentWithID_array components compId = None
      \<longleftrightarrow> (\<forall>k \<in> set components. componentID k \<noteq> compId))
   \<and> (\<forall>c remaining. findComponentWithID_array components compId = Some (c, remaining) \<longrightarrow>
         (\<exists>pre post. components = pre @ c # post \<and> remaining = pre @ post
            \<and> componentID c = compId \<and> (\<forall>k \<in> set post. componentID k \<noteq> compId)))"
proof (intro conjI allI impI iffI)
  assume "findComponentWithID_array components compId = None"
  then show "\<forall>k \<in> set components. componentID k \<noteq> compId" by (rule find_array_None)
next
  assume "\<forall>k \<in> set components. componentID k \<noteq> compId"
  then have "\<forall>j < length components. componentID (components ! j) \<noteq> compId" by simp
  then show "findComponentWithID_array components compId = None"
    unfolding findComponentWithID_array_def by (rule findInArray_None)
next
  fix c remaining
  assume "findComponentWithID_array components compId = Some (c, remaining)"
  then show "\<exists>pre post. components = pre @ c # post \<and> remaining = pre @ post
            \<and> componentID c = compId \<and> (\<forall>k \<in> set post. componentID k \<noteq> compId)"
    by (rule find_array_Some)
qed

theorem pool_lookup_claims_last_match_witness:
  "findComponentWithID_array [compA, twinA, compB] ''a'' = Some (twinA, [compA, compB])
   \<and> (\<exists>pre post. [compA, twinA, compB] = pre @ twinA # post \<and> [compA, compB] = pre @ post
         \<and> componentID twinA = ''a'' \<and> (\<forall>k \<in> set post. componentID k \<noteq> ''a''))"
proof -
  have f: "findComponentWithID_array [compA, twinA, compB] ''a'' = Some (twinA, [compA, compB])"
    by (simp add: findComponentWithID_array_def compA_def compB_def twinA_def)
  from pool_lookup_claims_last_match[of "[compA, twinA, compB]" "''a''"] f
  have "\<exists>pre post. [compA, twinA, compB] = pre @ twinA # post \<and> [compA, compB] = pre @ post
         \<and> componentID twinA = ''a'' \<and> (\<forall>k \<in> set post. componentID k \<noteq> ''a'')"
    by blast
  with f show ?thesis by (rule conjI)
qed

text \<open>
  C3, as stated, fails: with two components of the ID a in the pool, the lookup claims
  the second one and leaves the first, the earliest-indexed, in the pool.
\<close>

theorem pool_lookup_first_match_counterexample:
  "findComponentWithID_array [compA, twinA] ''a'' = Some (twinA, [compA])
   \<and> findComponentWithID_array [compA, twinA] ''a'' \<noteq> Some (compA, [twinA])"
  by (simp add: findComponentWithID_array_def compA_def twinA_def)

text \<open>
  C6. Let \<open>C\<close> be the child state node of \<open>S\<close> at index \<open>i\<close>, and let its identifier not
  be found in the pool as it stands when the loop of \<open>updateChildComponents b P S\<close>
  reaches \<open>C\<close>. If a handler matches the kind of \<open>C\<close>, the pass creates a new component
  for \<open>C\<close>: after the pass it is a child of \<open>P\<close>, at the position of \<open>C\<close> among the child
  state nodes that have a handler; it is the object that handler constructs, at an
  address no child of \<open>P\<close> had before; its parent pointer is \<open>P\<close> and its component ID is
  the identifier of \<open>C\<close>. If no handler matches, the assertion fails and no component
  stands for \<open>C\<close> in the rebuilt child list.
\<close>

theorem created_component_parent_and_id:
  assumes ok: "heapOK b P"
    and i: "i < length (getChildren S)"
    and C: "C = getChildren S ! i"
    and before: "st = childLoop (take i (getChildren S)) (passStart b P)"
    and notfound: "findComponentWithID_array (existingComponents st) (getStateId C) = None"
  shows "(\<forall>type. getHandlerForState b C = Some type \<longrightarrow>
            (\<exists>c. childComponentList (fst (updateChildComponents b P S))
                     ! length (filter (\<lambda>s. getHandlerForState b s \<noteq> None)
                                 (take i (getChildren S))) = c
               \<and> c \<in> set (childComponentList (fst (updateChildComponents b P S)))
               \<and> c = Component (nextRef (builderNow st)) (Some (ref P)) (getStateId C)
                       (snd (construct type C)) []
               \<and> ref c \<notin> ref ` set (childComponentList P)))
         \<and> (getHandlerForState b C = None \<longrightarrow>
              assertionFailed (snd (updateChildComponents b P S))
              \<and> map componentID (childComponentList (fst (updateChildComponents b P S)))
                  = map getStateId (filter (\<lambda>s. getHandlerForState b s \<noteq> None)
                                      (take i (getChildren S) @ drop (Suc i) (getChildren S))))"
proof (intro conjI allI impI)
  let ?ss = "getChildren S"
  let ?st0 = "passStart b P"
  let ?res = "childComponentList (fst (updateChildComponents b P S))"
  have split: "?ss = take i ?ss @ C # drop (Suc i) ?ss"
    using i C by (simp add: id_take_nth_drop)
  have res: "?res = componentsInOrder (childLoop ?ss ?st0)"
    unfolding passStart_def by (rule updateChildComponents_children[OF ok])
  have tb: "types (builderNow st) = types b"
    unfolding before by (simp add: childLoop_types passStart_def)
  have hb: "\<And>s. getHandlerForState (builderNow st) s = getHandlerForState b s"
    using tb by (rule getHandlerForState_types)
  have inv: "passInv (childComponentList P) (nextRef b) st"
    unfolding before passStart_def by (rule passInv_loop) (rule passInv_start[OF ok])
  have loop: "childLoop ?ss ?st0 = childLoop (drop (Suc i) ?ss) (childStep C st)"
    by (subst split) (simp add: childLoop_append before)
  {
    fix type
    assume h: "getHandlerForState b C = Some type"
    let ?c = "Component (nextRef (builderNow st)) (Some (ref P)) (getStateId C)
                (snd (construct type C)) []"
    have pr: "ref (parentNow st) = ref P"
      unfolding before by (simp add: childLoop_parent_ref passStart_def)
    from inv have fresh: "\<forall>k \<in> set (childComponentList (parentNow st)).
        ref k \<noteq> nextRef (builderNow st)"
      by (auto simp: passInv_def)
    have step: "componentsInOrder (childStep C st) = componentsInOrder st @ [?c]"
      using childStep_create[OF h[folded hb] notfound fresh refl] pr by simp
    from childLoop_prefix[of "drop (Suc i) ?ss" "childStep C st"] obtain new where
      "componentsInOrder (childLoop (drop (Suc i) ?ss) (childStep C st))
         = componentsInOrder (childStep C st) @ new" by blast
    then have all: "?res = componentsInOrder st @ ?c # new"
      by (simp add: res loop step)
    have "length (map componentID (componentsInOrder st))
          = length (map getStateId (filter (\<lambda>s. getHandlerForState b s \<noteq> None) (take i ?ss)))"
      unfolding before by (simp only: childLoop_ids) (simp add: passStart_def)
    then have len: "length (filter (\<lambda>s. getHandlerForState b s \<noteq> None) (take i ?ss))
        = length (componentsInOrder st)" by simp
    have nth: "?res ! length (filter (\<lambda>s. getHandlerForState b s \<noteq> None) (take i ?ss)) = ?c"
      unfolding len all by simp
    have mem: "?c \<in> set ?res" unfolding all by simp
    from inv have "nextRef b \<le> nextRef (builderNow st)" by (simp add: passInv_def)
    moreover from ok have "\<forall>k \<in> set (childComponentList P). ref k < nextRef b"
      by (simp add: heapOK_def list_all_iff)
    ultimately have nw: "ref ?c \<notin> ref ` set (childComponentList P)" by auto
    from nth mem nw
    show "\<exists>c. ?res ! length (filter (\<lambda>s. getHandlerForState b s \<noteq> None) (take i ?ss)) = c
               \<and> c \<in> set ?res
               \<and> c = Component (nextRef (builderNow st)) (Some (ref P)) (getStateId C)
                       (snd (construct type C)) []
               \<and> ref c \<notin> ref ` set (childComponentList P)"
      by blast
  }
  {
    assume n: "getHandlerForState b C = None"
    have "C \<in> set ?ss" using i C by simp
    then have "assertionFailed (builderNow (childLoop ?ss ?st0))"
      by (rule childLoop_unhandled_asserts) (simp add: passStart_def n)
    then show "assertionFailed (snd (updateChildComponents b P S))"
      by (simp add: updateChildComponents_def Let_def passStart_def)
    have "filter (\<lambda>s. getHandlerForState b s \<noteq> None) ?ss
          = filter (\<lambda>s. getHandlerForState b s \<noteq> None) (take i ?ss @ drop (Suc i) ?ss)"
      by (subst split) (simp add: n)
    then show "map componentID ?res
                  = map getStateId (filter (\<lambda>s. getHandlerForState b s \<noteq> None)
                                      (take i ?ss @ drop (Suc i) ?ss))"
      by (simp only: updateChildComponents_ids[OF ok])
  }
qed

theorem created_component_parent_and_id_witness:
  "existingComponents (childLoop [nodeB] (passStart (builderWith None 3) (rootWith [compA, compB])))
     = [compA]
   \<and> childComponentList (fst (updateChildComponents (builderWith None 3)
        (rootWith [compA, compB]) (ValueTree ''panel'' [(''id'', ''root'')] [nodeB, nodeC]))) ! 1
     = Component 3 (Some 0) ''c'' ''button'' []
   \<and> Component 3 (Some 0) ''c'' ''button'' []
       \<in> set (childComponentList (fst (updateChildComponents (builderWith None 3)
        (rootWith [compA, compB]) (ValueTree ''panel'' [(''id'', ''root'')] [nodeB, nodeC]))))"
proof -
  let ?b = "builderWith None 3" and ?P = "rootWith [compA, compB]"
  let ?S = "ValueTree ''panel'' [(''id'', ''root'')] [nodeB, nodeC]"
  let ?st = "childLoop (take 1 (getChildren ?S)) (passStart ?b ?P)"
  have st: "?st = \<lparr>existingComponents = [compA], componentsInOrder = [compB],
                   parentNow = ?P, builderNow = ?b\<rparr>"
    by (simp add: passStart_def childStep_def findComponentWithID_array_def jassert_def
        scenario_defs Let_def)
  have ok: "heapOK ?b ?P" by (simp add: scenario_defs)
  have i: "1 < length (getChildren ?S)" by simp
  have C: "nodeC = getChildren ?S ! 1" by simp
  have nf: "findComponentWithID_array (existingComponents ?st) (getStateId nodeC) = None"
    unfolding st by (simp add: findComponentWithID_array_def scenario_defs nodeC_def)
  have h: "getHandlerForState ?b nodeC = Some (exampleHandler ''button'')"
    by (simp add: scenario_defs nodeC_def)
  have pos: "length (filter (\<lambda>s. getHandlerForState ?b s \<noteq> None) (take 1 (getChildren ?S))) = 1"
    by (simp add: scenario_defs)
  have c: "Component (nextRef (builderNow ?st)) (Some (ref ?P)) (getStateId nodeC)
             (snd (construct (exampleHandler ''button'') nodeC)) []
           = Component 3 (Some 0) ''c'' ''button'' []"
    unfolding st by (simp add: scenario_defs nodeC_def)
  note t = created_component_parent_and_id[OF ok i C refl nf, THEN conjunct1, rule_format, OF h]
  from t obtain x where x: "childComponentList (fst (updateChildComponents ?b ?P ?S))
       ! length (filter (\<lambda>s. getHandlerForState ?b s \<noteq> None) (take 1 (getChildren ?S))) = x"
     "x \<in> set (childComponentList (fst (updateChildComponents ?b ?P ?S)))"
     "x = Component (nextRef (builderNow ?st)) (Some (ref ?P)) (getStateId nodeC)
             (snd (construct (exampleHandler ''button'') nodeC)) []"
    by blast
  from x(3) c have xc: "x = Component 3 (Some 0) ''c'' ''button'' []" by simp
  have pool: "existingComponents (childLoop [nodeB] (passStart ?b ?P)) = [compA]"
    using st by simp
  from x(1,2) xc pos pool show ?thesis by simp
qed

text \<open>
  C10. A child state node \<open>C\<close> without a handler is skipped: its iteration only records
  the failed assertion, the component IDs of the rebuilt child list are the identifiers
  of the child state nodes that have a handler, and an existing child with the
  identifier of \<open>C\<close> is gone after the pass, provided no child state node with a handler
  has the same identifier.
\<close>

theorem unhandled_child_is_skipped:
  assumes ok: "heapOK b parent"
    and C: "C \<in> set (getChildren children)"
    and unhandled: "getHandlerForState b C = None"
    and c: "c \<in> set (childComponentList parent)"
    and cid: "componentID c = getStateId C"
    and noclaim: "\<forall>s \<in> set (getChildren children).
                    getHandlerForState b s \<noteq> None \<longrightarrow> getStateId s \<noteq> getStateId C"
  shows "(\<forall>st. types (builderNow st) = types b \<longrightarrow>
            childStep C st = st\<lparr>builderNow := (builderNow st)\<lparr>assertionFailed := True\<rparr>\<rparr>)
         \<and> map componentID (childComponentList (fst (updateChildComponents b parent children)))
             = map getStateId (filter (\<lambda>s. getHandlerForState b s \<noteq> None) (getChildren children))
         \<and> ref c \<notin> ref ` set (childComponentList (fst (updateChildComponents b parent children)))"
proof (intro conjI allI impI)
  fix st :: "'a pass"
  assume "types (builderNow st) = types b"
  then have "getHandlerForState (builderNow st) C = None"
    using unhandled by (simp add: getHandlerForState_def)
  then show "childStep C st = st\<lparr>builderNow := (builderNow st)\<lparr>assertionFailed := True\<rparr>\<rparr>"
    by (rule childStep_unhandled)
next
  show "map componentID (childComponentList (fst (updateChildComponents b parent children)))
             = map getStateId (filter (\<lambda>s. getHandlerForState b s \<noteq> None) (getChildren children))"
    by (rule updateChildComponents_ids[OF ok])
next
  let ?st0 = "\<lparr>existingComponents = childComponentList parent, componentsInOrder = [],
              parentNow = parent, builderNow = b\<rparr>"
  let ?st = "childLoop (getChildren children) ?st0"
  let ?res = "childComponentList (fst (updateChildComponents b parent children))"
  have res: "?res = componentsInOrder ?st"
    by (rule updateChildComponents_children[OF ok])
  have inv: "passInv (childComponentList parent) (nextRef b) ?st"
    by (rule passInv_loop) (rule passInv_start[OF ok])
  show "ref c \<notin> ref ` set ?res"
  proof
    assume "ref c \<in> ref ` set ?res"
    then obtain k where k: "k \<in> set (componentsInOrder ?st)" "ref k = ref c"
      unfolding res by auto
    from ok c have lt: "ref c < nextRef b" by (simp add: heapOK_def list_all_iff)
    from inv k(1) have "k \<in> set (childComponentList parent) \<or> nextRef b \<le> ref k"
      by (simp add: passInv_def)
    with k(2) lt have kin: "k \<in> set (childComponentList parent)" by auto
    from ok have "inj_on ref (set (childComponentList parent))"
      by (simp add: heapOK_def distinct_map)
    with kin c k(2) have "k = c" by (auto dest: inj_onD)
    with k(1) have "componentID c \<in> set (map componentID ?res)" unfolding res by simp
    then have "componentID c \<in> set (map getStateId
        (filter (\<lambda>s. getHandlerForState b s \<noteq> None) (getChildren children)))"
      by (simp only: updateChildComponents_ids[OF ok])
    then obtain s where "s \<in> set (getChildren children)" "getHandlerForState b s \<noteq> None"
      "getStateId s = componentID c" by auto
    with noclaim cid show False by auto
  qed
qed

theorem unhandled_child_is_skipped_witness:
  "getHandlerForState (builderWith None 3) (nodeX ''b'') = None
   \<and> map componentID (childComponentList (fst (updateChildComponents (builderWith None 3)
        (rootWith [compA, compB]) (ValueTree ''panel'' [(''id'', ''root'')] [nodeX ''b'', nodeA]))))
      = [''a'']
   \<and> ref compB \<notin> ref ` set (childComponentList (fst (updateChildComponents (builderWith None 3)
        (rootWith [compA, compB]) (ValueTree ''panel'' [(''id'', ''root'')] [nodeX ''b'', nodeA]))))"
proof -
  let ?b = "builderWith None 3" and ?p = "rootWith [compA, compB]"
  let ?s = "ValueTree ''panel'' [(''id'', ''root'')] [nodeX ''b'', nodeA]"
  have ok: "heapOK ?b ?p" by (simp add: scenario_defs)
  have C: "nodeX ''b'' \<in> set (getChildren ?s)" by simp
  have un: "getHandlerForState ?b (nodeX ''b'') = None" by (simp add: scenario_defs nodeX_def)
  have c: "compB \<in> set (childComponentList ?p)" by (simp add: rootWith_def)
  have cid: "componentID compB = getStateId (nodeX ''b'')" by (simp add: scenario_defs nodeX_def)
  have nc: "\<forall>s \<in> set (getChildren ?s).
       getHandlerForState ?b s \<noteq> None \<longrightarrow> getStateId s \<noteq> getStateId (nodeX ''b'')"
    by (simp add: scenario_defs nodeX_def)
  have f: "map getStateId (filter (\<lambda>s. getHandlerForState ?b s \<noteq> None) (getChildren ?s)) = [''a'']"
    by (simp add: scenario_defs nodeX_def)
  from unhandled_child_is_skipped[OF ok C un c cid nc] un f show ?thesis by simp
qed

text \<open>
  C10, as stated, fails: the first child state node has no handler, the second has one
  and the same identifier a; the existing child with the ID a is claimed for the
  second node and is still a child after the pass.
\<close>

theorem unhandled_child_component_kept_counterexample:
  "getHandlerForState (builderWith None 3) (nodeX ''a'') = None
   \<and> componentID compA = getStateId (nodeX ''a'')
   \<and> childComponentList (fst (updateChildComponents (builderWith None 3)
        (rootWith [compA]) (ValueTree ''panel'' [(''id'', ''root'')] [nodeX ''a'', nodeA])))
      = [compA]"
  by (simp add: scenario_defs nodeX_def updateChildComponents_def childStep_def
      findComponentWithID_array_def jassert_def toFront_def toBehind_def deleteChild_def
      setChildren_def Let_def)

section \<open>Notifications\<close>

text \<open>
  C4. The search for a component by ID is a depth-first search that visits the root
  first and then the subtrees of its children from the last child (the highest index)
  down to the first, and returns the first component it visits whose ID is the
  identifier.
\<close>

theorem search_visits_last_child_first:
  "findComponentWithID c compId = find (\<lambda>k. componentID k = compId) (searchOrder c)"
  by (rule find_searchOrder(1))

theorem search_visits_last_child_first_witness:
  "findComponentWithID (rootWith [compA, twinA, compB]) ''a'' = Some twinA"
proof -
  have "find (\<lambda>k. componentID k = ''a'') (searchOrder (rootWith [compA, twinA, compB])) = Some twinA"
    by (simp add: rootWith_def compA_def compB_def twinA_def)
  with search_visits_last_child_first[of "rootWith [compA, twinA, compB]" "''a''"]
  show ?thesis by (rule trans)
qed

text \<open>
  C4, as stated, fails: when two children of the root have the ID a, a search that takes
  the children in index order returns the child at index 0, while the code returns the
  child at index 1.
\<close>

theorem search_in_index_order_counterexample:
  "findComponentWithID (rootWith [compA, twinA]) ''a'' = Some twinA
   \<and> find (\<lambda>k. componentID k = ''a'') (depthFirstInIndexOrder (rootWith [compA, twinA])) = Some compA
   \<and> findComponentWithID (rootWith [compA, twinA]) ''a''
       \<noteq> find (\<lambda>k. componentID k = ''a'') (depthFirstInIndexOrder (rootWith [compA, twinA]))"
  by (simp add: rootWith_def compA_def twinA_def findComponentWithID.simps)

text \<open>
  C5. All five listener callbacks run the same procedure on the notified node: a
  child-added, child-removed, child-order-changed or parent-changed notification does
  exactly what a property-changed notification does. The procedure gets the managed
  root, resolves the node, searches the component and puts in its place what the
  resolved handler's \<open>updateComponentFromState\<close> returns; it changes nothing else and
  reconciles no child list. So when the handlers leave the components below the one
  they update in place and addresses are unique, the managed tree holds after a
  child-added notification the components it held before, in the same order.
\<close>

theorem notifications_share_one_procedure:
  "valueTreeChildAdded b tree parents child = valueTreePropertyChanged b tree parents property
   \<and> valueTreeChildRemoved b tree parents child = valueTreePropertyChanged b tree parents property
   \<and> valueTreeChildOrderChanged b tree parents = valueTreePropertyChanged b tree parents property
   \<and> valueTreeParentChanged b tree parents = valueTreePropertyChanged b tree parents property
   \<and> valueTreePropertyChanged b tree parents property =
     (case getManagedComponent b of
        (None, b') \<Rightarrow> b'
      | (Some root, b') \<Rightarrow>
          (case resolveNode b tree parents of
             None \<Rightarrow> b'
           | Some R \<Rightarrow>
               (case findComponentWithID root (getStateId R) of
                  None \<Rightarrow> b'
                | Some changedComp \<Rightarrow>
                    b'\<lparr>component := Some (replaceComponent (ref changedComp)
                        (updateComponentFromState (the (getHandlerForState b R)) changedComp R)
                        root)\<rparr>)))
   \<and> ((\<forall>h \<in> set (types b). \<forall>c s.
          map ref (searchOrder (updateComponentFromState h c s)) = map ref (searchOrder c))
        \<and> (\<forall>root. component b = Some root \<longrightarrow> distinct (map ref (searchOrder root)))
       \<longrightarrow> (\<forall>root. fst (getManagedComponent b) = Some root \<longrightarrow>
              map_option (\<lambda>c. map ref (searchOrder c))
                (component (valueTreeChildAdded b tree parents child))
              = Some (map ref (searchOrder root))))"
proof -
  have eq: "valueTreeChildAdded b tree parents child = updateComponent b tree parents"
    "valueTreeChildRemoved b tree parents child = updateComponent b tree parents"
    "valueTreeChildOrderChanged b tree parents = updateComponent b tree parents"
    "valueTreeParentChanged b tree parents = updateComponent b tree parents"
    "valueTreePropertyChanged b tree parents property = updateComponent b tree parents"
    by (simp_all add: valueTreePropertyChanged_def valueTreeChildAdded_def
      valueTreeChildRemoved_def valueTreeChildOrderChanged_def valueTreeParentChanged_def)
  have struct: "(\<forall>h \<in> set (types b). \<forall>c s.
          map ref (searchOrder (updateComponentFromState h c s)) = map ref (searchOrder c))
        \<and> (\<forall>root. component b = Some root \<longrightarrow> distinct (map ref (searchOrder root)))
       \<longrightarrow> (\<forall>root. fst (getManagedComponent b) = Some root \<longrightarrow>
              map_option (\<lambda>c. map ref (searchOrder c))
                (component (updateComponent b tree parents))
              = Some (map ref (searchOrder root)))"
  proof (intro impI allI, elim conjE)
    fix root
    assume keep: "\<forall>h \<in> set (types b). \<forall>c s.
          map ref (searchOrder (updateComponentFromState h c s)) = map ref (searchOrder c)"
      and uniq: "\<forall>root. component b = Some root \<longrightarrow> distinct (map ref (searchOrder root))"
      and f: "fst (getManagedComponent b) = Some root"
    obtain b' where g: "getManagedComponent b = (Some root, b')"
      using f by (cases "getManagedComponent b") simp
    show "map_option (\<lambda>c. map ref (searchOrder c)) (component (updateComponent b tree parents))
              = Some (map ref (searchOrder root))"
      by (rule updateComponent_keeps_structure[OF keep uniq g])
  qed
  show ?thesis
    unfolding eq using updateComponent_characterised[of b tree parents] struct by blast
qed

theorem notifications_share_one_procedure_witness:
  "valueTreeChildAdded (builderWith (Some (rootWith [compA])) 3) nodeR [] nodeB
     = valueTreePropertyChanged (builderWith (Some (rootWith [compA])) 3) nodeR [] ''text''
   \<and> map_option (\<lambda>c. map ref (searchOrder c))
        (component (valueTreeChildAdded (builderWith (Some (rootWith [compA])) 3) nodeR [] nodeB))
     = Some [0, 1]"
proof -
  let ?b = "builderWith (Some (rootWith [compA])) 3"
  note t = notifications_share_one_procedure[of ?b nodeR "[]" nodeB "''text''"]
  have keep: "\<forall>h \<in> set (types ?b). \<forall>c s.
          map ref (searchOrder (updateComponentFromState h c s)) = map ref (searchOrder c)"
  proof (intro ballI allI)
    fix h c s assume "h \<in> set (types ?b)"
    then have "updateComponentFromState h c s
       = Component (ref c) (parentComponent c) (componentID c) ''updated'' (childComponentList c)"
      by (auto simp: builderWith_def exampleHandler_def)
    then show "map ref (searchOrder (updateComponentFromState h c s)) = map ref (searchOrder c)"
      by (cases c) simp
  qed
  have uniq: "\<forall>root. component ?b = Some root \<longrightarrow> distinct (map ref (searchOrder root))"
    by (simp add: builderWith_def rootWith_def compA_def)
  have g: "fst (getManagedComponent ?b) = Some (rootWith [compA])"
    by (simp add: getManagedComponent_def builderWith_def)
  have r: "map ref (searchOrder (rootWith [compA])) = [0, 1]"
    by (simp add: rootWith_def compA_def)
  from t keep uniq g
  have "map_option (\<lambda>c. map ref (searchOrder c)) (component (valueTreeChildAdded ?b nodeR [] nodeB))
        = Some (map ref (searchOrder (rootWith [compA])))"
    by blast
  with r have s: "map_option (\<lambda>c. map ref (searchOrder c))
        (component (valueTreeChildAdded ?b nodeR [] nodeB)) = Some [0, 1]" by simp
  from t have "valueTreeChildAdded ?b nodeR [] nodeB = valueTreePropertyChanged ?b nodeR [] ''text''"
    by (rule conjunct1)
  with s show ?thesis by simp
qed

text \<open>
  C5, as stated, fails: the root component has no children, its state node has two; a
  child-added notification on the root leaves the child list of the root component
  empty, where a child-list reconciliation would create the two children, and its
  result is the result of a property-changed notification.
\<close>

theorem structural_notification_no_reconcile_counterexample:
  "childComponentList (the (component
       (valueTreeChildAdded (builderWith (Some (rootWith [])) 1) nodeR [] nodeA))) = []
   \<and> childComponentList (fst (updateChildComponents (builderWith (Some (rootWith [])) 1)
       (rootWith []) nodeR)) = [compA, compB]
   \<and> valueTreeChildAdded (builderWith (Some (rootWith [])) 1) nodeR [] nodeA
       = valueTreePropertyChanged (builderWith (Some (rootWith [])) 1) nodeR [] ''text''"
proof -
  let ?b = "builderWith (Some (rootWith [])) 1"
  have u: "updateComponent ?b nodeR []
           = builderWith (Some (Component 0 None ''root'' ''updated'' [])) 1"
    by (subst updateComponent.simps) (simp add: builder_eval scenario_defs)
  have p: "childComponentList (fst (updateChildComponents ?b (rootWith []) nodeR)) = [compA, compB]"
    by (simp add: scenario_defs updateChildComponents_def childStep_def
      findComponentWithID_array_def jassert_def toFront_def toBehind_def deleteChild_def
      setChildren_def storeChild_def createNewComponent_def addNewComponentFromState_def
      setComponentID_def Let_def)
  from u p show ?thesis
    by (simp add: valueTreeChildAdded_def valueTreePropertyChanged_def builderWith_def)
qed

text \<open>
  C7. A notification on a node without a matching handler or with an empty identifier
  is handled as the same notification on its parent. Altogether the procedure finds the
  nearest ancestor-or-self with a handler and a non-empty identifier; if there is none,
  or no component of the managed tree has that identifier, nothing more happens;
  otherwise the handler of the resolved node updates the component the search returns.
\<close>

theorem notification_resolves_then_updates:
  "((getHandlerForState b N = None \<or> getStateId N = []) \<longrightarrow>
       updateComponent b N (p # ps) = updateComponent b p ps)
   \<and> updateComponent b N parents =
     (case getManagedComponent b of
        (None, b') \<Rightarrow> b'
      | (Some root, b') \<Rightarrow>
          (case resolveNode b N parents of
             None \<Rightarrow> b'
           | Some R \<Rightarrow>
               (case findComponentWithID root (getStateId R) of
                  None \<Rightarrow> b'
                | Some changedComp \<Rightarrow>
                    b'\<lparr>component := Some (replaceComponent (ref changedComp)
                        (updateComponentFromState (the (getHandlerForState b R)) changedComp R)
                        root)\<rparr>)))"
proof (intro conjI impI)
  assume "getHandlerForState b N = None \<or> getStateId N = []"
  then show "updateComponent b N (p # ps) = updateComponent b p ps"
    by (rule updateComponent_step)
next
  show "updateComponent b N parents =
     (case getManagedComponent b of
        (None, b') \<Rightarrow> b'
      | (Some root, b') \<Rightarrow>
          (case resolveNode b N parents of
             None \<Rightarrow> b'
           | Some R \<Rightarrow>
               (case findComponentWithID root (getStateId R) of
                  None \<Rightarrow> b'
                | Some changedComp \<Rightarrow>
                    b'\<lparr>component := Some (replaceComponent (ref changedComp)
                        (updateComponentFromState (the (getHandlerForState b R)) changedComp R)
                        root)\<rparr>)))"
  proof (cases "getManagedComponent b")
    case (Pair c b')
    show ?thesis
    proof (cases c)
      case None
      with Pair show ?thesis by (simp add: updateComponent_no_root)
    next
      case (Some root)
      with Pair have g: "getManagedComponent b = (Some root, b')" by simp
      show ?thesis by (simp add: g updateComponent_resolved[OF g])
    qed
  qed
qed

theorem notification_resolves_then_updates_witness:
  "updateComponent (builderWith (Some (rootWith [compA, compB])) 3) leafNode [nodeA, nodeR]
     = builderWith (Some (rootWith [Component 1 (Some 0) ''a'' ''updated'' [], compB])) 3"
proof -
  let ?b = "builderWith (Some (rootWith [compA, compB])) 3"
  have g: "getManagedComponent ?b = (Some (rootWith [compA, compB]), ?b)"
    by (simp add: getManagedComponent_def builderWith_def)
  have r: "resolveNode ?b leafNode [nodeA, nodeR] = Some nodeA"
    by (simp add: resolveNode_def leafNode_def scenario_defs)
  have f: "findComponentWithID (rootWith [compA, compB]) (getStateId nodeA) = Some compA"
    by (simp add: findComponentWithID.simps scenario_defs)
  have h: "the (getHandlerForState ?b nodeA) = exampleHandler ''button''"
    by (simp add: scenario_defs)
  have u: "?b\<lparr>component := Some (replaceComponent (ref compA)
              (updateComponentFromState (exampleHandler ''button'') compA nodeA)
              (rootWith [compA, compB]))\<rparr>
           = builderWith (Some (rootWith [Component 1 (Some 0) ''a'' ''updated'' [], compB])) 3"
    by (simp add: scenario_defs)
  from notification_resolves_then_updates[of ?b leafNode nodeA "[nodeR]" "[nodeA, nodeR]"]
  have "updateComponent ?b leafNode [nodeA, nodeR]
        = ?b\<lparr>component := Some (replaceComponent (ref compA)
              (updateComponentFromState (exampleHandler ''button'') compA nodeA)
              (rootWith [compA, compB]))\<rparr>"
    by (simp add: g r f h)
  with u show ?thesis by simp
qed

text \<open>
  C8. When the resolved node's identifier belongs to no component of the managed tree,
  the notification does nothing beyond \<open>getManagedComponent\<close>: if the root component
  exists already the builder is unchanged (no assertion fails, no handler runs, no
  component is created, modified or disposed); if it does not, the only effect is the
  lazy construction of the root.
\<close>

theorem stale_notification_is_noop:
  assumes res: "resolveNode b N parents = Some R"
    and missing: "\<forall>root. fst (getManagedComponent b) = Some root \<longrightarrow>
                    findComponentWithID root (getStateId R) = None"
  shows "updateComponent b N parents = snd (getManagedComponent b)
         \<and> (component b \<noteq> None \<longrightarrow> updateComponent b N parents = b)"
proof -
  have first: "updateComponent b N parents = snd (getManagedComponent b)"
  proof (cases "getManagedComponent b")
    case (Pair c b')
    show ?thesis
    proof (cases c)
      case None
      with Pair show ?thesis by (simp add: updateComponent_no_root)
    next
      case (Some root)
      with Pair have g: "getManagedComponent b = (Some root, b')" by simp
      with missing have "findComponentWithID root (getStateId R) = None" by simp
      then show ?thesis by (simp add: g res updateComponent_resolved[OF g])
    qed
  qed
  moreover have "component b \<noteq> None \<longrightarrow> snd (getManagedComponent b) = b"
    by (simp add: getManagedComponent_def)
  ultimately show ?thesis by simp
qed

theorem stale_notification_is_noop_witness:
  "resolveNode (builderWith (Some (rootWith [compA])) 3) nodeB [nodeR] = Some nodeB
   \<and> findComponentWithID (rootWith [compA]) (getStateId nodeB) = None
   \<and> updateComponent (builderWith (Some (rootWith [compA])) 3) nodeB [nodeR]
       = builderWith (Some (rootWith [compA])) 3"
proof -
  let ?b = "builderWith (Some (rootWith [compA])) 3"
  have r: "resolveNode ?b nodeB [nodeR] = Some nodeB"
    by (simp add: resolveNode_def scenario_defs)
  have f: "findComponentWithID (rootWith [compA]) (getStateId nodeB) = None"
    by (simp add: findComponentWithID.simps scenario_defs)
  have g: "fst (getManagedComponent ?b) = Some (rootWith [compA])"
    by (simp add: getManagedComponent_def builderWith_def)
  have m: "\<forall>root. fst (getManagedComponent ?b) = Some root \<longrightarrow>
             findComponentWithID root (getStateId nodeB) = None"
    using f g by simp
  have c: "component ?b \<noteq> None" by (simp add: builderWith_def)
  from stale_notification_is_noop[OF r m] c
  have "updateComponent ?b nodeB [nodeR] = ?b" by blast
  with r f show ?thesis by simp
qed

text \<open>
  C8, as stated, fails: the root component is not yet created and the notification
  resolves to a node whose identifier no component has; the notification creates the
  root component.
\<close>

theorem stale_notification_creates_root_counterexample:
  "component (builderWith None 0) = None
   \<and> resolveNode (builderWith None 0) nodeA [nodeR] = Some nodeA
   \<and> component (updateComponent (builderWith None 0) nodeA [nodeR]) = Some (rootWith [])
   \<and> updateComponent (builderWith None 0) nodeA [nodeR] \<noteq> builderWith None 0"
proof -
  have u: "updateComponent (builderWith None 0) nodeA [nodeR] = builderWith (Some (rootWith [])) 1"
    by (subst updateComponent.simps) (simp add: builder_eval scenario_defs)
  have r: "resolveNode (builderWith None 0) nodeA [nodeR] = Some nodeA"
    by (simp add: resolveNode_def scenario_defs)
  from u r show ?thesis by (simp add: builderWith_def)
qed

text \<open>
  C9. On a builder whose root component is not yet created, each of the five
  notifications runs \<open>getManagedComponent\<close> first. When a handler matches the kind of the
  root state node, this constructs the root, so the builder has its root component
  afterwards, and when the notification resolves to no node this construction is all
  that happens. When no handler matches, the assertion fails, no root is constructed
  and the notification does nothing else.
\<close>

theorem notification_constructs_root:
  assumes unbuilt: "component b = None"
  shows "(\<forall>h. getHandlerForState b (state b) = Some h \<longrightarrow>
           fst (getManagedComponent b)
             = Some (Component (nextRef b) None (getStateId (state b))
                       (snd (construct h (state b))) [])
           \<and> component (valueTreePropertyChanged b tree parents property) \<noteq> None
           \<and> component (valueTreeChildAdded b tree parents child) \<noteq> None
           \<and> component (valueTreeChildRemoved b tree parents child) \<noteq> None
           \<and> component (valueTreeChildOrderChanged b tree parents) \<noteq> None
           \<and> component (valueTreeParentChanged b tree parents) \<noteq> None
           \<and> (resolveNode b tree parents = None \<longrightarrow>
                 updateComponent b tree parents = snd (getManagedComponent b)
                 \<and> component (updateComponent b tree parents) = fst (getManagedComponent b)))
         \<and> (getHandlerForState b (state b) = None \<longrightarrow>
               valueTreePropertyChanged b tree parents property = snd (getManagedComponent b)
               \<and> valueTreeChildAdded b tree parents child = snd (getManagedComponent b)
               \<and> valueTreeChildRemoved b tree parents child = snd (getManagedComponent b)
               \<and> valueTreeChildOrderChanged b tree parents = snd (getManagedComponent b)
               \<and> valueTreeParentChanged b tree parents = snd (getManagedComponent b)
               \<and> component (snd (getManagedComponent b)) = None
               \<and> assertionFailed (snd (getManagedComponent b)))"
proof (intro conjI allI impI)
  assume n: "getHandlerForState b (state b) = None"
  from createComponent_unhandled[OF n] unbuilt
  have g: "fst (getManagedComponent b) = None"
    and c: "component (snd (getManagedComponent b)) = None"
    and a: "assertionFailed (snd (getManagedComponent b))"
    by (auto simp: getManagedComponent_def split: prod.splits)
  from g have "getManagedComponent b = (None, snd (getManagedComponent b))"
    by (cases "getManagedComponent b") simp
  then have u: "updateComponent b tree parents = snd (getManagedComponent b)"
    by (rule updateComponent_no_root)
  from u show "valueTreePropertyChanged b tree parents property = snd (getManagedComponent b)"
    by (simp add: valueTreePropertyChanged_def)
  from u show "valueTreeChildAdded b tree parents child = snd (getManagedComponent b)"
    by (simp add: valueTreeChildAdded_def)
  from u show "valueTreeChildRemoved b tree parents child = snd (getManagedComponent b)"
    by (simp add: valueTreeChildRemoved_def)
  from u show "valueTreeChildOrderChanged b tree parents = snd (getManagedComponent b)"
    by (simp add: valueTreeChildOrderChanged_def)
  from u show "valueTreeParentChanged b tree parents = snd (getManagedComponent b)"
    by (simp add: valueTreeParentChanged_def)
  from c show "component (snd (getManagedComponent b)) = None" .
  from a show "assertionFailed (snd (getManagedComponent b))" .
next
  fix h
  assume handler: "getHandlerForState b (state b) = Some h"
  let ?root = "Component (nextRef b) None (getStateId (state b)) (snd (construct h (state b))) []"
  obtain b' where g: "getManagedComponent b = (Some ?root, b')"
    using unbuilt by (simp add: getManagedComponent_def createComponent_handled[OF handler])
  have keep: "component (updateComponent b tree parents) \<noteq> None"
    by (rule updateComponent_keeps_root[OF g])
  from g show "fst (getManagedComponent b) = Some ?root" by simp
  from keep show "component (valueTreePropertyChanged b tree parents property) \<noteq> None"
    by (simp add: valueTreePropertyChanged_def)
  from keep show "component (valueTreeChildAdded b tree parents child) \<noteq> None"
    by (simp add: valueTreeChildAdded_def)
  from keep show "component (valueTreeChildRemoved b tree parents child) \<noteq> None"
    by (simp add: valueTreeChildRemoved_def)
  from keep show "component (valueTreeChildOrderChanged b tree parents) \<noteq> None"
    by (simp add: valueTreeChildOrderChanged_def)
  from keep show "component (valueTreeParentChanged b tree parents) \<noteq> None"
    by (simp add: valueTreeParentChanged_def)
  assume r: "resolveNode b tree parents = None"
  show "updateComponent b tree parents = snd (getManagedComponent b)"
    by (simp add: updateComponent_resolved[OF g] g r)
  show "component (updateComponent b tree parents) = fst (getManagedComponent b)"
    using getManagedComponent_component[OF g] by (simp add: updateComponent_resolved[OF g] g r)
qed

theorem notification_constructs_root_witness:
  "component (builderWith None 0) = None
   \<and> resolveNode (builderWith None 0) leafNode [] = None
   \<and> component (valueTreeParentChanged (builderWith None 0) leafNode []) = Some (rootWith [])
   \<and> component (valueTreePropertyChanged (builderWith None 0) nodeA [nodeR] ''text'') \<noteq> None
   \<and> getHandlerForState noHandlers (state noHandlers) = None
   \<and> component (valueTreeChildAdded noHandlers nodeR [] nodeA) = None
   \<and> assertionFailed (valueTreeChildAdded noHandlers nodeR [] nodeA)"
proof -
  let ?b = "builderWith None 0"
  have c: "component ?b = None" by (simp add: builderWith_def)
  have h: "getHandlerForState ?b (state ?b) = Some (exampleHandler ''panel'')"
    by (simp add: scenario_defs)
  have r: "resolveNode ?b leafNode [] = None"
    by (simp add: resolveNode_def leafNode_def scenario_defs)
  have v: "Component (nextRef ?b) None (getStateId (state ?b))
             (snd (construct (exampleHandler ''panel'') (state ?b))) [] = rootWith []"
    by (simp add: scenario_defs)
  note t = notification_constructs_root[OF c, THEN conjunct1, rule_format, OF h]
  from t[of leafNode "[]"] r
  have "component (updateComponent ?b leafNode []) = fst (getManagedComponent ?b)" by blast
  also from t[of leafNode "[]"] have "\<dots> = Some (Component (nextRef ?b) None (getStateId (state ?b))
             (snd (construct (exampleHandler ''panel'') (state ?b))) [])" by (rule conjunct1)
  also note v
  finally have "component (updateComponent ?b leafNode []) = Some (rootWith [])" .
  then have a: "component (valueTreeParentChanged ?b leafNode []) = Some (rootWith [])"
    by (simp add: valueTreeParentChanged_def)
  from t[of nodeA "[nodeR]" "''text''"]
  have b: "component (valueTreePropertyChanged ?b nodeA [nodeR] ''text'') \<noteq> None" by blast
  have c0: "component noHandlers = None" by (simp add: noHandlers_def)
  have h0: "getHandlerForState noHandlers (state noHandlers) = None"
    by (simp add: noHandlers_def getHandlerForState_def)
  note t0 = notification_constructs_root[OF c0, THEN conjunct2, rule_format, OF h0]
  from t0[of nodeR "[]" _ nodeA]
  have n1: "component (valueTreeChildAdded noHandlers nodeR [] nodeA) = None"
    and n2: "assertionFailed (valueTreeChildAdded noHandlers nodeR [] nodeA)"
    by simp_all
  from c r a b h0 n1 n2 show ?thesis by simp
qed

text \<open>
  C9, as stated, fails: on a builder without any registered handler, none of the five
  notifications constructs the root component.
\<close>

theorem notification_without_root_handler_counterexample:
  "component noHandlers = None
   \<and> component (valueTreePropertyChanged noHandlers nodeR [] ''text'') = None
   \<and> component (valueTreeChildAdded noHandlers nodeR [] nodeA) = None
   \<and> component (valueTreeChildRemoved noHandlers nodeR [] nodeA) = None
   \<and> component (valueTreeChildOrderChanged noHandlers nodeR []) = None
   \<and> component (valueTreeParentChanged noHandlers nodeR []) = None"
proof -
  have "updateComponent noHandlers nodeR [] = noHandlers\<lparr>assertionFailed := True\<rparr>"
    by (subst updateComponent.simps)
       (simp add: noHandlers_def getManagedComponent_def createComponent_def jassert_def
          getHandlerForState_def Let_def)
  then show ?thesis
    by (simp add: valueTreePropertyChanged_def valueTreeChildAdded_def
      valueTreeChildRemoved_def valueTreeChildOrderChanged_def valueTreeParentChanged_def
      noHandlers_def)
qed

end
